theory Spec2Isabelle
  imports Complex_Main "HOL-Library.Word" "HOL-Library.Char_ord" "HOL-Library.List_Lexorder"
    "HOL-Library.Log_Nat"
begin

section \<open>Data model\<close>

text \<open>
  Python exceptions are values. Only subclasses of \<open>Exception\<close> occur in the code that is
  modelled; the constructor names are the Python class names.
\<close>

datatype py_error = AttributeError | IndexError | TypeError | ValueError | KeyError
  | ValidationError | ClientError string

text \<open>
  JSON-like Python values (\<open>Dict[str, Any]\<close> fields, the argument of \<open>json.dumps\<close>).
  A dictionary is an association list in insertion order; Python guarantees that its keys
  are pairwise different.
\<close>

datatype json = JNull | JBool bool | JInt int | JFloat real | JStr string
  | JList "json list" | JDict "(string \<times> json) list"

text \<open>
  The pydantic models of \<open>affine/__init__.py\<close>. An environment object (\<open>BaseEnv\<close>) is
  represented by its \<open>name\<close>, the class name, which is all the modelled code reads of it.
\<close>

record Challenge =
  env :: string
  prompt :: string
  extra :: "(string \<times> json) list"
  challenge_id :: "string option"

record Evaluation =
  env :: string
  score :: real
  extra :: "(string \<times> json) list"

record Response =
  response :: "string option"
  latency_seconds :: real
  attempts :: int
  model :: string
  error :: "string option"
  success :: bool

record Miner =
  uid :: int
  hotkey :: string
  model :: "string option"
  revision :: "string option"
  block :: "int option"
  chute :: "(string \<times> json) list option"
  slug :: "string option"

record Result =
  version :: string
  signature :: string
  hotkey :: string
  miner :: Miner
  challenge :: Challenge
  response :: Response
  evaluation :: Evaluation

section \<open>Weight engine: \<open>get_weights\<close>\<close>

subsection \<open>String helpers of the naming check\<close>

text \<open>\<open>s.split(sep, 1)\<close>: at most one split, at the first occurrence of the separator.\<close>

definition split1 :: "char \<Rightarrow> string \<Rightarrow> string list" where
  "split1 sep s =
     (if sep \<in> set s
      then [takeWhile (\<lambda>c. c \<noteq> sep) s, tl (dropWhile (\<lambda>c. c \<noteq> sep) s)]
      else [s])"

text \<open>\<open>str.lower\<close> on the ASCII letters (other characters are left as they are).\<close>

definition lower_char :: "char \<Rightarrow> char" where
  "lower_char c =
     (case map_of (zip ''ABCDEFGHIJKLMNOPQRSTUVWXYZ'' ''abcdefghijklmnopqrstuvwxyz'') c of
        Some l \<Rightarrow> l
      | None \<Rightarrow> c)"

definition lower :: "string \<Rightarrow> string" where
  "lower s = map lower_char s"

definition startswith :: "string \<Rightarrow> string \<Rightarrow> bool" where
  "startswith s p = (take (length p) s = p)"

text \<open>
  \<open>name = c.miner.model.split('/',1)[1].lower()\<close>. The field \<open>model\<close> is
  \<open>Optional[str]\<close>: on \<open>None\<close> the attribute access raises \<open>AttributeError\<close>, and on a
  model id without \<open>'/'\<close> the index \<open>[1]\<close> raises \<open>IndexError\<close>.
\<close>

definition model_name :: "Result \<Rightarrow> py_error + string" where
  "model_name c =
     (case Miner.model (miner c) of
        None \<Rightarrow> Inl AttributeError
      | Some m \<Rightarrow>
          (case split1 CHR ''/'' m of
             [a, b] \<Rightarrow> Inr (lower b)
           | _ \<Rightarrow> Inl IndexError))"

subsection \<open>The accumulation loop\<close>

text \<open>
  The accumulators of \<open>get_weights\<close>. \<open>cnt\<close> and \<open>succ\<close> are built as
  \<open>{hk: defaultdict(int) for hk in meta.hotkeys}\<close> and no key is added or removed
  afterwards: their key set is \<open>set hotkeys\<close> throughout, so the test \<open>hk not in cnt\<close>
  is \<open>hk \<notin> set hotkeys\<close>, and the inner \<open>defaultdict(int)\<close> is a total function with
  default \<open>0\<close>. \<open>prev\<close> is an ordinary dictionary; its insertion order is kept because
  \<open>max(prev, ...)\<close> iterates it.
\<close>

record tally =
  cnt :: "string \<Rightarrow> string \<Rightarrow> int"
  succ :: "string \<Rightarrow> string \<Rightarrow> real"
  prev :: "(string \<times> Result) list"

definition init_tally :: tally where
  "init_tally = \<lparr>cnt = (\<lambda>hk e. 0), succ = (\<lambda>hk e. 0), prev = []\<rparr>"

text \<open>\<open>d[k] = v\<close> on an insertion-ordered dictionary: an existing key keeps its place.\<close>

fun dict_set :: "('k \<times> 'v) list \<Rightarrow> 'k \<Rightarrow> 'v \<Rightarrow> ('k \<times> 'v) list" where
  "dict_set [] k v = [(k, v)]"
| "dict_set ((k', v') # d) k v = (if k' = k then (k, v) # d else (k', v') # dict_set d k v)"

definition set2 :: "('a \<Rightarrow> 'b \<Rightarrow> 'c) \<Rightarrow> 'a \<Rightarrow> 'b \<Rightarrow> 'c \<Rightarrow> ('a \<Rightarrow> 'b \<Rightarrow> 'c)" where
  "set2 d hk e v = d(hk := (d hk)(e := v))"

text \<open>The triple compared by the reset: \<open>(block, model, revision)\<close> of a miner.\<close>

definition triple :: "Miner \<Rightarrow> int option \<times> string option \<times> string option" where
  "triple m = (block m, Miner.model m, revision m)"

text \<open>
  Lines 679-683: \<open>if hk in prev: p = prev[hk].miner; if p.block != ... : succ[hk][env] = 0\<close>.
\<close>

definition reset :: "tally \<Rightarrow> Result \<Rightarrow> tally" where
  "reset st c =
     (let hk = Miner.hotkey (miner c); e = Challenge.env (challenge c) in
      case map_of (prev st) hk of
        None \<Rightarrow> st
      | Some p \<Rightarrow>
          (if block (miner p) \<noteq> block (miner c) \<or> Miner.model (miner p) \<noteq> Miner.model (miner c)
              \<or> revision (miner p) \<noteq> revision (miner c)
           then st\<lparr>succ := set2 (succ st) hk e 0\<rparr>
           else st))"

text \<open>
  Python floats are IEEE doubles. A finite double is the real number it denotes, and Python
  compares an \<open>int\<close> with a \<open>float\<close> by value, so scores, sums and accuracies are
  reals here; what a double operation adds to the exact one is its rounding. The two
  operations of \<open>get_weights\<close> that round are parameters of the model:
  \<^item> \<open>fadd x y\<close> is the value of \<open>x + y\<close>, where \<open>y\<close> is a float and \<open>x\<close> a float or
    the \<open>int\<close> zero a sum starts from;
  \<^item> \<open>fdiv x n\<close> is the value of \<open>float(x) / n\<close> for a float \<open>x\<close> and an \<open>int\<close>
    \<open>n\<close> other than zero.

  Nothing is assumed of them: what is proved holds for every rounding, that of IEEE 754
  included. In Python \<open>0 + y\<close> evaluates to \<open>y\<close> for every float \<open>y\<close>. Infinities and
  NaN are outside the model.
\<close>

record float_ops =
  fadd :: "real \<Rightarrow> real \<Rightarrow> real"
  fdiv :: "real \<Rightarrow> int \<Rightarrow> real"

text \<open>
  Lines 685-687: \<open>prev[hk] = c; cnt[hk][env] += 1; succ[hk][env] += c.evaluation.score\<close>.
\<close>

definition accumulate :: "float_ops \<Rightarrow> tally \<Rightarrow> Result \<Rightarrow> tally" where
  "accumulate F st c =
     (let hk = Miner.hotkey (miner c); e = Challenge.env (challenge c) in
      st\<lparr>prev := dict_set (prev st) hk c,
         cnt := set2 (cnt st) hk e (cnt st hk e + 1),
         succ := set2 (succ st) hk e (fadd F (succ st hk e) (score (evaluation c)))\<rparr>)"

text \<open>One iteration of the loop body, lines 673-687.\<close>

definition step :: "float_ops \<Rightarrow> string list \<Rightarrow> tally \<Rightarrow> Result \<Rightarrow> py_error + tally" where
  "step F hotkeys st c =
     (case model_name c of
        Inl err \<Rightarrow> Inl err
      | Inr name \<Rightarrow>
          (if Miner.hotkey (miner c) \<notin> set hotkeys \<or> \<not> startswith name ''affine''
           then Inr st
           else Inr (accumulate F (reset st c) c)))"

text \<open>The loop \<open>async for c in dataset(tail=tail)\<close>; an exception of the body ends it.\<close>

fun collect :: "float_ops \<Rightarrow> string list \<Rightarrow> tally \<Rightarrow> Result list \<Rightarrow> py_error + tally" where
  "collect F hotkeys st [] = Inr st"
| "collect F hotkeys st (c # cs) =
     (case step F hotkeys st c of
        Inl err \<Rightarrow> Inl err
      | Inr st' \<Rightarrow> collect F hotkeys st' cs)"

subsection \<open>Accuracy, dense ranks, dominance, winner\<close>

definition ENVS :: "string list" where
  "ENVS = [''SAT'', ''ABD'', ''DED'']"

text \<open>
  Line 693: \<open>float(succ[hk][e])/cnt[hk][e] if cnt[hk][e] else 0\<close>, a double division of
  the (rounded) sum by the count.
\<close>

definition acc :: "float_ops \<Rightarrow> tally \<Rightarrow> string \<Rightarrow> string \<Rightarrow> real" where
  "acc F st hk e = (if cnt st hk e \<noteq> 0 then fdiv F (succ st hk e) (cnt st hk e) else 0)"

text \<open>\<open>uniq = sorted({acc[h][e] for h in meta.hotkeys}, reverse=True)\<close>.\<close>

definition uniq :: "'a::linorder list \<Rightarrow> 'a list" where
  "uniq vs = rev (sorted_list_of_set (set vs))"

text \<open>
  \<open>rank_of = {v: i+1 for i, v in enumerate(uniq)}\<close>: a later entry of a dictionary
  comprehension overrides an earlier one.
\<close>

definition rank_of :: "'a list \<Rightarrow> ('a \<rightharpoonup> nat)" where
  "rank_of us = map_of (rev (zip us [1..<Suc (length us)]))"

text \<open>
  \<open>{h: rank_of[acc[h][e]] for h in meta.hotkeys}\<close>; a failing lookup \<open>rank_of[...]\<close>
  raises \<open>KeyError\<close>.
\<close>

fun ranks_dict :: "('a \<rightharpoonup> nat) \<Rightarrow> (string \<Rightarrow> 'a) \<Rightarrow> string list \<Rightarrow> (string \<rightharpoonup> nat)
    \<Rightarrow> py_error + (string \<rightharpoonup> nat)" where
  "ranks_dict ro a [] d = Inr d"
| "ranks_dict ro a (h # hs) d =
     (case ro (a h) of
        None \<Rightarrow> Inl KeyError
      | Some r \<Rightarrow> ranks_dict ro a hs (d(h \<mapsto> r)))"

text \<open>The ranks of one environment, from the accuracy \<open>a h\<close> of every hotkey.\<close>

definition ranks_env :: "(string \<Rightarrow> 'a::linorder) \<Rightarrow> string list \<Rightarrow> py_error + (string \<rightharpoonup> nat)" where
  "ranks_env a hotkeys = ranks_dict (rank_of (uniq (map a hotkeys))) a hotkeys Map.empty"

text \<open>The loop \<open>for e in ENVS: ... ranks[e] = {...}\<close>, lines 704-708.\<close>

fun ranks_all :: "(string \<Rightarrow> string \<Rightarrow> 'a::linorder) \<Rightarrow> string list \<Rightarrow> string list
    \<Rightarrow> (string \<rightharpoonup> (string \<rightharpoonup> nat)) \<Rightarrow> py_error + (string \<rightharpoonup> (string \<rightharpoonup> nat))" where
  "ranks_all A hotkeys [] R = Inr R"
| "ranks_all A hotkeys (e # es) R =
     (case ranks_env (\<lambda>h. A h e) hotkeys of
        Inl err \<Rightarrow> Inl err
      | Inr r \<Rightarrow> ranks_all A hotkeys es (R(e \<mapsto> r)))"

text \<open>The lookup \<open>ranks[e][a]\<close>.\<close>

definition lookup2 :: "(string \<rightharpoonup> (string \<rightharpoonup> nat)) \<Rightarrow> string \<Rightarrow> string \<Rightarrow> py_error + nat" where
  "lookup2 R e a =
     (case R e of
        None \<Rightarrow> Inl KeyError
      | Some r \<Rightarrow> (case r a of None \<Rightarrow> Inl KeyError | Some n \<Rightarrow> Inr n))"

text \<open>\<open>all(ranks[e][a] <= ranks[e][b] for e in ENVS)\<close>, stopping at the first false.\<close>

fun all_le :: "(string \<rightharpoonup> (string \<rightharpoonup> nat)) \<Rightarrow> string \<Rightarrow> string \<Rightarrow> string list \<Rightarrow> py_error + bool" where
  "all_le R a b [] = Inr True"
| "all_le R a b (e # es) =
     (case lookup2 R e a of
        Inl err \<Rightarrow> Inl err
      | Inr ra \<Rightarrow>
          (case lookup2 R e b of
             Inl err \<Rightarrow> Inl err
           | Inr rb \<Rightarrow> if ra \<le> rb then all_le R a b es else Inr False))"

text \<open>\<open>any(ranks[e][a] < ranks[e][b] for e in ENVS)\<close>, stopping at the first true.\<close>

fun any_lt :: "(string \<rightharpoonup> (string \<rightharpoonup> nat)) \<Rightarrow> string \<Rightarrow> string \<Rightarrow> string list \<Rightarrow> py_error + bool" where
  "any_lt R a b [] = Inr False"
| "any_lt R a b (e # es) =
     (case lookup2 R e a of
        Inl err \<Rightarrow> Inl err
      | Inr ra \<Rightarrow>
          (case lookup2 R e b of
             Inl err \<Rightarrow> Inl err
           | Inr rb \<Rightarrow> if ra < rb then Inr True else any_lt R a b es))"

text \<open>The condition of line 714-715; \<open>and\<close> evaluates its right side only if the left holds.\<close>

definition dominates :: "(string \<rightharpoonup> (string \<rightharpoonup> nat)) \<Rightarrow> string \<Rightarrow> string \<Rightarrow> py_error + bool" where
  "dominates R a b =
     (case all_le R a b ENVS of
        Inl err \<Rightarrow> Inl err
      | Inr t \<Rightarrow> if t then any_lt R a b ENVS else Inr False)"

text \<open>
  \<open>itertools.permutations(xs, 2)\<close>: the ordered pairs of elements at two different
  positions, in position order.
\<close>

definition permutations2 :: "'a list \<Rightarrow> ('a \<times> 'a) list" where
  "permutations2 xs =
     concat (map (\<lambda>i. map (\<lambda>j. (xs ! i, xs ! j)) (filter (\<lambda>j. j \<noteq> i) [0..<length xs]))
                 [0..<length xs])"

text \<open>The dominance loop, lines 712-716; \<open>dom\<close> is a \<open>defaultdict(int)\<close>.\<close>

fun dom_loop :: "(string \<rightharpoonup> (string \<rightharpoonup> nat)) \<Rightarrow> (string \<times> string) list \<Rightarrow> (string \<Rightarrow> int)
    \<Rightarrow> py_error + (string \<Rightarrow> int)" where
  "dom_loop R [] d = Inr d"
| "dom_loop R ((a, b) # ps) d =
     (case dominates R a b of
        Inl err \<Rightarrow> Inl err
      | Inr t \<Rightarrow> dom_loop R ps (if t then d(a := d a + 1) else d))"

text \<open>
  The key of line 720: \<open>(dom[hk], -prev[hk].miner.block)\<close>. The field \<open>block\<close> is
  \<open>Optional[int]\<close>; negating \<open>None\<close> raises \<open>TypeError\<close>.
\<close>

definition best_key :: "(string \<Rightarrow> int) \<Rightarrow> (string \<times> Result) list \<Rightarrow> string \<Rightarrow> py_error + (int \<times> int)" where
  "best_key d prv hk =
     (case map_of prv hk of
        None \<Rightarrow> Inl KeyError
      | Some r \<Rightarrow> (case block (miner r) of None \<Rightarrow> Inl TypeError | Some b \<Rightarrow> Inr (d hk, - b)))"

text \<open>Python's \<open>>\<close> on pairs of integers: lexicographic.\<close>

definition key_gt :: "int \<times> int \<Rightarrow> int \<times> int \<Rightarrow> bool" where
  "key_gt k1 k2 = (fst k1 > fst k2 \<or> (fst k1 = fst k2 \<and> snd k1 > snd k2))"

text \<open>
  The builtin \<open>max(iterable, key=f)\<close>: the first item keeps its place until a later item has
  a strictly greater key; an empty iterable raises \<open>ValueError\<close>.
\<close>

fun max_loop :: "('a \<Rightarrow> py_error + (int \<times> int)) \<Rightarrow> 'a list \<Rightarrow> 'a \<Rightarrow> int \<times> int \<Rightarrow> py_error + 'a" where
  "max_loop key [] m mk = Inr m"
| "max_loop key (x # xs) m mk =
     (case key x of
        Inl err \<Rightarrow> Inl err
      | Inr k \<Rightarrow> if key_gt k mk then max_loop key xs x k else max_loop key xs m mk)"

definition py_max :: "('a \<Rightarrow> py_error + (int \<times> int)) \<Rightarrow> 'a list \<Rightarrow> py_error + 'a" where
  "py_max key xs =
     (case xs of
        [] \<Rightarrow> Inl ValueError
      | x # xs' \<Rightarrow> (case key x of Inl err \<Rightarrow> Inl err | Inr k \<Rightarrow> max_loop key xs' x k))"

text \<open>\<open>list.index\<close>: the first position of the value, \<open>ValueError\<close> if there is none.\<close>

fun index_of :: "'a list \<Rightarrow> 'a \<Rightarrow> py_error + nat" where
  "index_of [] v = Inl ValueError"
| "index_of (x # xs) v =
     (if x = v then Inr 0 else (case index_of xs v of Inl err \<Rightarrow> Inl err | Inr i \<Rightarrow> Inr (Suc i)))"

text \<open>
  The summary table, lines 729-736, is built before the function returns: each row reads
  \<open>m.model.split('/')[1][:20]\<close> and \<open>m.revision[:5]\<close> of a recorded miner, and slicing
  \<open>None\<close> raises \<open>TypeError\<close>.
\<close>

definition summary_row :: "Result \<Rightarrow> py_error + unit" where
  "summary_row r =
     (case Miner.model (miner r) of
        None \<Rightarrow> Inl AttributeError
      | Some s \<Rightarrow>
          (if CHR ''/'' \<notin> set s then Inl IndexError
           else (case revision (miner r) of None \<Rightarrow> Inl TypeError | Some v \<Rightarrow> Inr ())))"

fun summary :: "(string \<times> Result) list \<Rightarrow> py_error + unit" where
  "summary [] = Inr ()"
| "summary ((hk, r) # prv) =
     (case summary_row r of Inl err \<Rightarrow> Inl err | Inr u \<Rightarrow> summary prv)"

text \<open>
  \<open>get_weights\<close>, from the registered hotkeys (\<open>meta.hotkeys\<close>) and the Results that
  \<open>dataset(tail)\<close> yields, in order. \<open>max(acc[hk][e] for hk in meta.hotkeys)\<close> of line 699
  raises \<open>ValueError\<close> when there is no registered hotkey. The result is
  \<open>(best_uid, best)\<close>.
\<close>

definition get_weights :: "float_ops \<Rightarrow> string list \<Rightarrow> Result list \<Rightarrow> py_error + (nat \<times> string)" where
  "get_weights F hotkeys stream =
     (case collect F hotkeys init_tally stream of
        Inl err \<Rightarrow> Inl err
      | Inr st \<Rightarrow>
          if hotkeys = [] then Inl ValueError
          else
            (case ranks_all (acc F st) hotkeys ENVS Map.empty of
               Inl err \<Rightarrow> Inl err
             | Inr R \<Rightarrow>
                 (case dom_loop R (permutations2 hotkeys) (\<lambda>hk. 0) of
                    Inl err \<Rightarrow> Inl err
                  | Inr d \<Rightarrow>
                      (case py_max (best_key d (prev st)) (map fst (prev st)) of
                         Inl err \<Rightarrow> Inl err
                       | Inr best \<Rightarrow>
                           (case index_of hotkeys best of
                              Inl err \<Rightarrow> Inl err
                            | Inr best_uid \<Rightarrow>
                                (case summary (prev st) of
                                   Inl err \<Rightarrow> Inl err
                                 | Inr u \<Rightarrow> Inr (best_uid, best)))))))"

subsection \<open>The ranking in the words of the specification\<close>

text \<open>
  Dense rank of a hotkey in one environment: one more than the number of distinct accuracy
  values of the registered hotkeys that are greater than its own.
\<close>

definition dense_rank :: "float_ops \<Rightarrow> tally \<Rightarrow> string list \<Rightarrow> string \<Rightarrow> string \<Rightarrow> nat" where
  "dense_rank F st hotkeys e h =
     Suc (card {v \<in> (\<lambda>g. acc F st g e) ` set hotkeys. acc F st h e < v})"

text \<open>
  Pareto dominance: \<open>a\<close>'s rank is at most \<open>b\<close>'s in every environment and strictly less in
  at least one.
\<close>

definition pareto :: "float_ops \<Rightarrow> tally \<Rightarrow> string list \<Rightarrow> string \<Rightarrow> string \<Rightarrow> bool" where
  "pareto F st hotkeys a b =
     ((\<forall>e\<in>set ENVS. dense_rank F st hotkeys e a \<le> dense_rank F st hotkeys e b)
      \<and> (\<exists>e\<in>set ENVS. dense_rank F st hotkeys e a < dense_rank F st hotkeys e b))"

text \<open>The number of registered identities that \<open>a\<close> dominates.\<close>

definition dominance_count :: "float_ops \<Rightarrow> tally \<Rightarrow> string list \<Rightarrow> string \<Rightarrow> nat" where
  "dominance_count F st hotkeys a = card {b \<in> set hotkeys. pareto F st hotkeys a b}"

text \<open>
  A Result is observed (not skipped) by the loop when its miner is registered and the model
  id passes the naming check.
\<close>

definition observed :: "string list \<Rightarrow> Result \<Rightarrow> bool" where
  "observed hotkeys c =
     (case model_name c of
        Inl err \<Rightarrow> False
      | Inr name \<Rightarrow> Miner.hotkey (miner c) \<in> set hotkeys \<and> startswith name ''affine'')"

section \<open>Record model: string form, signing, verification\<close>

text \<open>
  Functions of the Python standard library that the code calls are parameters of the
  model, collected in one record:
  \<^item> \<open>shorten t w\<close> is \<open>textwrap.shorten(t, width=w, placeholder="\<dots>")\<close>;
  \<^item> \<open>repr_str s\<close> is \<open>repr(s)\<close> of a string (the \<open>!r\<close> conversion);
  \<^item> \<open>json_str s\<close> is the JSON string literal that \<open>json.dumps\<close> writes for \<open>s\<close>;
  \<^item> \<open>float_repr x\<close> is the text that \<open>json.dumps\<close> writes for a float;
  \<^item> \<open>sha256_hexdigest s\<close> is \<open>hashlib.sha256(s.encode()).hexdigest()\<close>.
\<close>

record stdlib =
  shorten :: "string \<Rightarrow> nat \<Rightarrow> string"
  repr_str :: "string \<Rightarrow> string"
  json_str :: "string \<Rightarrow> string"
  float_repr :: "real \<Rightarrow> string"
  sha256_hexdigest :: "string \<Rightarrow> string"

text \<open>
  The bittensor key pairs are parameters too. \<open>'w\<close> is the type of wallets (with the
  private key and the randomness a signature uses), \<open>'kp\<close> the type of public key pairs:
  \<^item> \<open>ss58_address w\<close> is \<open>wallet.hotkey.ss58_address\<close>;
  \<^item> \<open>hotkey_sign w d\<close> is \<open>wallet.hotkey.sign(data=d)\<close>, a byte string;
  \<^item> \<open>Keypair a\<close> is \<open>bt.Keypair(ss58_address=a)\<close>, which raises on a malformed address;
  \<^item> \<open>Keypair_verify kp d s\<close> is \<open>kp.verify(data=d, signature=s)\<close>.
\<close>

type_synonym byte = "8 word"

record ('w, 'kp) bittensor =
  ss58_address :: "'w \<Rightarrow> string"
  hotkey_sign :: "'w \<Rightarrow> string \<Rightarrow> byte list"
  Keypair :: "string \<Rightarrow> py_error + 'kp"
  Keypair_verify :: "'kp \<Rightarrow> string \<Rightarrow> byte list \<Rightarrow> py_error + bool"

text \<open>
  \<open>_truncate(t, max_len=80)\<close>:
  \<open>"" if not t else textwrap.shorten(t, width=max_len, placeholder="\<dots>")\<close>.
\<close>

definition truncate_str :: "stdlib \<Rightarrow> string option \<Rightarrow> nat \<Rightarrow> string" where
  "truncate_str L t max_len =
     (case t of
        None \<Rightarrow> []
      | Some s \<Rightarrow> if s = [] then [] else shorten L s max_len)"

text \<open>
  \<open>Challenge.__repr__\<close>, which is also \<open>__str__\<close>:
  \<open>f"<Challenge env={self.env.name!r} prompt={_truncate(self.prompt)!r}>"\<close>.
\<close>

definition Challenge_repr :: "stdlib \<Rightarrow> Challenge \<Rightarrow> string" where
  "Challenge_repr L c =
     ''<Challenge env='' @ repr_str L (Challenge.env c) @ '' prompt=''
       @ repr_str L (truncate_str L (Some (prompt c)) 80) @ ''>''"

text \<open>\<open>bytes.hex()\<close>: two lower-case hexadecimal digits for every byte.\<close>

definition hexdigit :: "nat \<Rightarrow> char" where
  "hexdigit n = ''0123456789abcdef'' ! n"

definition hex :: "byte list \<Rightarrow> string" where
  "hex bs = concat (map (\<lambda>b. [hexdigit (unat b div 16), hexdigit (unat b mod 16)]) bs)"

text \<open>
  \<open>bytes.fromhex(s)\<close>: ASCII whitespace before a pair of digits is skipped, the digits
  may be upper or lower case, anything else (and a lone last digit) raises \<open>ValueError\<close>.
\<close>

definition is_space :: "char \<Rightarrow> bool" where
  "is_space c = (c \<in> set [CHR '' '', CHR 0x09, CHR 0x0A, CHR 0x0B, CHR 0x0C, CHR 0x0D])"

definition hexval :: "char \<Rightarrow> nat option" where
  "hexval c = map_of (zip ''0123456789abcdefABCDEF''
                          [0, 1, 2, 3, 4, 5, 6, 7, 8, 9, 10, 11, 12, 13, 14, 15, 10, 11, 12, 13, 14, 15]) c"

fun fromhex :: "string \<Rightarrow> py_error + byte list" where
  "fromhex [] = Inr []"
| "fromhex (c # cs) =
     (if is_space c then fromhex cs
      else
        (case cs of
           [] \<Rightarrow> Inl ValueError
         | c2 # rest \<Rightarrow>
             (case (hexval c, hexval c2) of
                (Some hi, Some lo) \<Rightarrow>
                  (case fromhex rest of
                     Inl err \<Rightarrow> Inl err
                   | Inr bs \<Rightarrow> Inr (word_of_nat (16 * hi + lo) # bs))
              | _ \<Rightarrow> Inl ValueError)))"

text \<open>
  \<open>Result.sign\<close>:
  \<open>self.hotkey = wallet.hotkey.ss58_address;
    self.signature = (wallet.hotkey.sign(data=str(self.challenge))).hex()\<close>.
\<close>

definition sign :: "stdlib \<Rightarrow> ('w, 'kp) bittensor \<Rightarrow> 'w \<Rightarrow> Result \<Rightarrow> Result" where
  "sign L B wallet r =
     r\<lparr>Result.hotkey := ss58_address B wallet,
       signature := hex (hotkey_sign B wallet (Challenge_repr L (challenge r)))\<rparr>"

text \<open>
  \<open>Result.verify\<close>:
  \<open>bt.Keypair(ss58_address=self.hotkey).verify(data=str(self.challenge),
     signature=bytes.fromhex(self.signature))\<close>.
  The key pair is built first, then the arguments are evaluated, then \<open>verify\<close> is called.
\<close>

definition verify :: "stdlib \<Rightarrow> ('w, 'kp) bittensor \<Rightarrow> Result \<Rightarrow> py_error + bool" where
  "verify L B r =
     (case Keypair B (Result.hotkey r) of
        Inl err \<Rightarrow> Inl err
      | Inr kp \<Rightarrow>
          (case fromhex (signature r) of
             Inl err \<Rightarrow> Inl err
           | Inr sig \<Rightarrow> Keypair_verify B kp (Challenge_repr L (challenge r)) sig))"

section \<open>Content-addressed challenge ids\<close>

text \<open>Decimal text of an integer, as \<open>json.dumps\<close> and an f-string write it.\<close>

fun nat_repr :: "nat \<Rightarrow> string" where
  "nat_repr n =
     (if n < 10 then [''0123456789'' ! n]
      else nat_repr (n div 10) @ [''0123456789'' ! (n mod 10)])"

definition int_repr :: "int \<Rightarrow> string" where
  "int_repr i = (if i < 0 then CHR ''-'' # nat_repr (nat (- i)) else nat_repr (nat i))"

text \<open>\<open>sep.join(parts)\<close>.\<close>

fun join :: "string \<Rightarrow> string list \<Rightarrow> string" where
  "join sep [] = []"
| "join sep [p] = p"
| "join sep (p # q # ps) = p @ sep @ join sep (q # ps)"

text \<open>
  \<open>json.dumps(o, sort_keys=True, separators=(",", ":"))\<close>: no white space, and the items
  of every dictionary in the order of their keys (\<open>sorted(dct.items())\<close>; the keys of a
  dictionary are pairwise different, so only keys are ever compared, by code point).
\<close>

function dumps :: "stdlib \<Rightarrow> json \<Rightarrow> string" where
  "dumps L JNull = ''null''"
| "dumps L (JBool b) = (if b then ''true'' else ''false'')"
| "dumps L (JInt i) = int_repr i"
| "dumps L (JFloat x) = float_repr L x"
| "dumps L (JStr s) = json_str L s"
| "dumps L (JList xs) = ''['' @ join '','' (map (dumps L) xs) @ '']''"
| "dumps L (JDict kvs) =
     ''{'' @ join '','' (map (\<lambda>kv. json_str L (fst kv) @ '':'' @ dumps L (snd kv))
                            (sort_key fst kvs)) @ ''}''"
  by pat_completeness auto
termination
proof (relation "measure (\<lambda>(L, j). size j)")
  show "wf (measure (\<lambda>(L, j). size j))" by simp
next
  fix L :: stdlib and xs :: "json list" and x :: json
  assume "x \<in> set xs"
  then have "size x < size (JList xs)"
    by (induction xs) auto
  then show "((L, x), (L, JList xs)) \<in> measure (\<lambda>(L, j). size j)" by simp
next
  fix L :: stdlib and kvs :: "(string \<times> json) list" and kv :: "string \<times> json"
  assume "kv \<in> set (sort_key fst kvs)"
  then have "kv \<in> set kvs" by simp
  then have "size (snd kv) < size (JDict kvs)"
    by (induction kvs) auto
  then show "((L, snd kv), (L, JDict kvs)) \<in> measure (\<lambda>(L, j). size j)" by simp
qed

text \<open>
  The argument of the validator: the raw field values of the model being built. A key that
  is missing is \<open>None\<close>; for \<open>challenge_id\<close>, a missing key and the value \<open>None\<close> are
  treated alike by the code. The field \<open>env\<close> holds a name or an environment object.
\<close>

datatype env_arg = EnvName string | EnvObject string

record challenge_values =
  v_env :: "env_arg option"
  v_prompt :: "string option"
  v_extra :: "(string \<times> json) list option"
  v_challenge_id :: "string option"

text \<open>\<open>if not isinstance(env, str): env = env.name\<close>.\<close>

definition env_name :: "env_arg \<Rightarrow> string" where
  "env_name e = (case e of EnvName s \<Rightarrow> s | EnvObject n \<Rightarrow> n)"

text \<open>The canonical text that is hashed, lines 149-150.\<close>

definition canonical :: "stdlib \<Rightarrow> string \<Rightarrow> string \<Rightarrow> (string \<times> json) list \<Rightarrow> string" where
  "canonical L e p x =
     dumps L (JDict [(''env'', JStr e), (''prompt'', JStr p), (''extra'', JDict x)])"

text \<open>
  \<open>Challenge.set_challenge_id\<close>, lines 142-153. \<open>values["env"]\<close> and
  \<open>values["prompt"]\<close> raise \<open>KeyError\<close> on a missing key; \<open>extra\<close> defaults to \<open>{}\<close>.
\<close>

definition set_challenge_id :: "stdlib \<Rightarrow> challenge_values \<Rightarrow> py_error + challenge_values" where
  "set_challenge_id L values =
     (case v_challenge_id values of
        Some cid \<Rightarrow> Inr values
      | None \<Rightarrow>
          (case v_env values of
             None \<Rightarrow> Inl KeyError
           | Some e \<Rightarrow>
               (case v_prompt values of
                  None \<Rightarrow> Inl KeyError
                | Some p \<Rightarrow>
                    (let x = (case v_extra values of None \<Rightarrow> [] | Some d \<Rightarrow> d);
                         cid = sha256_hexdigest L (canonical L (env_name e) p x)
                     in Inr (values\<lparr>v_challenge_id := Some cid\<rparr>)))))"

text \<open>
  The field validator \<open>_parse_env\<close>, lines 154-160:
  \<open>ENVS = {"SAT": SAT, "ABD": ABD, "DED": DED}; return ENVS[v]() if isinstance(v, str) else v\<close>.
  A name outside the table raises \<open>KeyError\<close>; an environment object is passed on. The
  three classes are imported from modules that are not among the sources at hand: their
  constructors are taken to return, and \<open>BaseEnv.name\<close> is the class name
  (\<open>self.__class__.__name__\<close>), so the object built for a name has that name. The value
  is the name of the environment object the field holds.
\<close>

definition parse_env :: "env_arg \<Rightarrow> py_error + string" where
  "parse_env v =
     (case v of
        EnvName s \<Rightarrow> if s \<in> set [''SAT'', ''ABD'', ''DED''] then Inr s else Inl KeyError
      | EnvObject n \<Rightarrow> Inr n)"

text \<open>
  Constructing a \<open>Challenge\<close> from an environment, a prompt and an extra map:
  the root validator (\<open>pre=True\<close>) runs first, on the raw values, then the field
  validator of \<open>env\<close>, then the fields are stored. An exception of either validator is
  the outcome of the construction.
\<close>

definition new_Challenge :: "stdlib \<Rightarrow> env_arg \<Rightarrow> string \<Rightarrow> (string \<times> json) list \<Rightarrow> py_error + Challenge" where
  "new_Challenge L e p x =
     (case set_challenge_id L \<lparr>v_env = Some e, v_prompt = Some p, v_extra = Some x,
                               v_challenge_id = None\<rparr> of
        Inl err \<Rightarrow> Inl err
      | Inr values \<Rightarrow>
          (case parse_env e of
             Inl err \<Rightarrow> Inl err
           | Inr n \<Rightarrow>
               Inr \<lparr>Challenge.env = n, prompt = p, Challenge.extra = x,
                    challenge_id = v_challenge_id values\<rparr>))"

text \<open>
  Two JSON values with the same content: equal up to the insertion order of the
  dictionaries in them, at every depth. Numbers of different types, as \<open>1\<close> and \<open>1.0\<close>,
  are different content (\<open>json.dumps\<close> writes them differently).
\<close>

inductive same_value :: "json \<Rightarrow> json \<Rightarrow> bool" where
  same_atom: "same_value j j"
| same_list: "list_all2 same_value xs ys \<Longrightarrow> same_value (JList xs) (JList ys)"
| same_dict: "distinct (map fst xs) \<Longrightarrow> distinct (map fst ys) \<Longrightarrow> fst ` set xs = fst ` set ys \<Longrightarrow>
     (\<forall>k v v'. (k, v) \<in> set xs \<longrightarrow> (k, v') \<in> set ys \<longrightarrow> same_value v v') \<Longrightarrow>
     same_value (JDict xs) (JDict ys)"

section \<open>Dataset streamer\<close>

text \<open>
  The body of the \<open>try\<close> of lines 344-346, for one raw line:
  \<open>r = Result.model_validate(_loads(raw)); if r.verify(): yield r\<close>. The decoder
  (\<open>_loads\<close> and pydantic) is a parameter. The value is the list of Results yielded
  (none or one), or the exception raised.
\<close>

definition line_body :: "stdlib \<Rightarrow> ('w, 'kp) bittensor \<Rightarrow> (string \<Rightarrow> py_error + Result) \<Rightarrow> string
    \<Rightarrow> py_error + Result list" where
  "line_body L B decode raw =
     (case decode raw of
        Inl err \<Rightarrow> Inl err
      | Inr r \<Rightarrow>
          (case verify L B r of
             Inl err \<Rightarrow> Inl err
           | Inr ok \<Rightarrow> Inr (if ok then [r] else [])))"

text \<open>The whole statement: \<open>try: ... except Exception: pass\<close>.\<close>

definition line :: "stdlib \<Rightarrow> ('w, 'kp) bittensor \<Rightarrow> (string \<Rightarrow> py_error + Result) \<Rightarrow> string
    \<Rightarrow> Result list" where
  "line L B decode raw =
     (case line_body L B decode raw of
        Inl err \<Rightarrow> []
      | Inr rs \<Rightarrow> rs)"

text \<open>
  \<open>dataset\<close>, lines 338-348: the shards in key order, the lines of a shard in file order.
  Each shard is the outcome of \<open>await tasks[i]\<close>: its lines, or the exception of the
  transfer, which is not caught and ends the stream after the Results already yielded.
\<close>

fun dataset :: "stdlib \<Rightarrow> ('w, 'kp) bittensor \<Rightarrow> (string \<Rightarrow> py_error + Result)
    \<Rightarrow> (py_error + string list) list \<Rightarrow> Result list \<times> py_error option" where
  "dataset L B decode [] = ([], None)"
| "dataset L B decode (Inl err # shards) = ([], Some err)"
| "dataset L B decode (Inr raws # shards) =
     (case dataset L B decode shards of
        (rs, e) \<Rightarrow> (concat (map (line L B decode) raws) @ rs, e))"

section \<open>Query dispatcher: \<open>query\<close>\<close>

definition TERMINAL :: "nat set" where
  "TERMINAL = {400, 404, 410}"

text \<open>
  What one HTTP attempt does, as far as \<open>query\<close> looks at it. \<open>Raised e\<close>: an exception with
  text \<open>e\<close> before the status check (the semaphore, the POST or reading the body text).
  \<open>Reply status txt body\<close>: a response with its status and body text; \<open>body\<close> is the
  outcome of \<open>(await r.json())["choices"][0]["message"]["content"]\<close>, the content or the
  text of the exception.
\<close>

datatype attempt = Raised string | Reply nat string "string + string"

text \<open>
  The environment of one call: the outcome of the \<open>k\<close>-th attempt, the text of the exception
  of \<open>raise_for_status\<close> for a status, the value of \<open>random.uniform(-0.1, 0.1)\<close> after the
  \<open>k\<close>-th attempt and the seconds elapsed since \<open>start\<close> when the \<open>k\<close>-th attempt resolves.
\<close>

record network =
  outcome :: "nat \<Rightarrow> attempt"
  status_error :: "nat \<Rightarrow> string"
  jitter :: "nat \<Rightarrow> real"
  elapsed :: "nat \<Rightarrow> real"

text \<open>The local function \<open>R\<close> of lines 410-411 (here \<open>R_local\<close>).\<close>

definition R_local :: "network \<Rightarrow> string \<Rightarrow> string option \<Rightarrow> nat \<Rightarrow> string option \<Rightarrow> bool \<Rightarrow> Response" where
  "R_local N m resp k err ok =
     \<lparr>Response.response = resp, latency_seconds = elapsed N k, attempts = int k,
      Response.model = m, error = err, success = ok\<rparr>"

text \<open>
  The loop \<open>for attempt in range(1, retries+2)\<close>, lines 413-427, from attempt \<open>attempt\<close>
  with \<open>n\<close> iterations left. The state is the list of the backoff sleeps made so far; the
  value is the Response returned (\<open>None\<close> when the loop ends without \<open>return\<close>) and the
  sleeps.
\<close>

fun query_loop :: "network \<Rightarrow> string \<Rightarrow> int \<Rightarrow> real \<Rightarrow> nat \<Rightarrow> nat \<Rightarrow> real list
    \<Rightarrow> Response option \<times> real list" where
  "query_loop N m retries backoff 0 attempt sleeps = (None, sleeps)"
| "query_loop N m retries backoff (Suc n) attempt sleeps =
     (let handler = (\<lambda>e.
            if int attempt > retries then (Some (R_local N m None attempt (Some e) False), sleeps)
            else query_loop N m retries backoff n (Suc attempt)
                   (sleeps @ [backoff * 2 ^ (attempt - 1) * (1 + jitter N attempt)]))
      in case outcome N attempt of
           Raised e \<Rightarrow> handler e
         | Reply status txt body \<Rightarrow>
             if status \<in> TERMINAL
             then (Some (R_local N m None attempt (Some (nat_repr status @ '':'' @ txt)) False), sleeps)
             else if 400 \<le> status then handler (status_error N status)
             else (case body of
                     Inl e \<Rightarrow> handler e
                   | Inr content \<Rightarrow> (Some (R_local N m (Some content) attempt None True), sleeps)))"

text \<open>\<open>query(prompt, model, slug, timeout, retries, backoff)\<close>: attempts \<open>1, ..., retries+1\<close>.\<close>

definition query :: "network \<Rightarrow> string \<Rightarrow> int \<Rightarrow> real \<Rightarrow> Response option \<times> real list" where
  "query N m retries backoff = query_loop N m retries backoff (nat (retries + 1)) 1 []"

section \<open>Sample values\<close>

text \<open>Concrete miners and Results on which the theorems below are instantiated.\<close>

definition ex_miner :: "string \<Rightarrow> string option \<Rightarrow> string option \<Rightarrow> int option \<Rightarrow> Miner" where
  "ex_miner hk m rv b =
     \<lparr>uid = 0, Miner.hotkey = hk, Miner.model = m, revision = rv, block = b, chute = None,
      slug = None\<rparr>"

definition ex_result :: "Miner \<Rightarrow> string \<Rightarrow> real \<Rightarrow> Result" where
  "ex_result m e s =
     \<lparr>version = ''0.0.0'', signature = [], Result.hotkey = [], miner = m,
      challenge = \<lparr>Challenge.env = e, prompt = ''p'', Challenge.extra = [], challenge_id = None\<rparr>,
      response = \<lparr>Response.response = Some ''r'', latency_seconds = 0, attempts = 1,
                  Response.model = ''m'', error = None, success = True\<rparr>,
      evaluation = \<lparr>Evaluation.env = e, score = s, Evaluation.extra = []\<rparr>\<rparr>"

text \<open>
  The float arithmetic to compute with: binary floating point with 53 significant bits,
  rounding to nearest, ties to even. This is the arithmetic of IEEE 754 doubles (Python's
  \<open>float\<close>) as long as no result is subnormal or overflows. For \<open>x > 0\<close>,
  \<open>expo2 x\<close> is the exponent \<open>e\<close> with \<open>2^e \<le> x < 2^(e+1)\<close>, read off the number of
  bits of \<open>\<lfloor>x\<rfloor>\<close> (for \<open>x \<ge> 1\<close>) or of \<open>\<lceil>1/x\<rceil> - 1\<close> (for \<open>x < 1\<close>); a double
  with that exponent is a multiple of \<open>2^(e-52)\<close>. An \<open>int\<close> divisor is converted to a
  float first, as Python does.
\<close>

definition expo2 :: "real \<Rightarrow> int" where
  "expo2 x = (if 1 \<le> x then bitlen \<lfloor>x\<rfloor> - 1 else - bitlen (\<lceil>1 / x\<rceil> - 1))"

definition pow2 :: "int \<Rightarrow> real" where
  "pow2 e = (if 0 \<le> e then 2 ^ nat e else 1 / 2 ^ nat (- e))"

definition ties_even :: "real \<Rightarrow> int" where
  "ties_even y =
     (let f = \<lfloor>y\<rfloor> in
      if y - of_int f < 1/2 then f
      else if 1/2 < y - of_int f then f + 1
      else if even f then f else f + 1)"

definition round53 :: "real \<Rightarrow> real" where
  "round53 x =
     (if x = 0 then 0
      else let u = pow2 (expo2 \<bar>x\<bar> - 52) in sgn x * of_int (ties_even (\<bar>x\<bar> / u)) * u)"

definition ex_binary64 :: float_ops where
  "ex_binary64 =
     \<lparr>fadd = (\<lambda>x y. round53 (x + y)), fdiv = (\<lambda>x n. round53 (x / round53 (of_int n)))\<rparr>"

text \<open>For comparison, the arithmetic that does not round.\<close>

definition ex_exact :: float_ops where
  "ex_exact = \<lparr>fadd = (\<lambda>x y. x + y), fdiv = (\<lambda>x n. x / real_of_int n)\<rparr>"

text \<open>
  Stand-ins for the library functions, small enough to compute with: truncation to the
  width, quoting without escapes, the identity in place of the hash.
\<close>

definition ex_lib :: stdlib where
  "ex_lib =
     \<lparr>shorten = (\<lambda>t w. take w t),
      repr_str = (\<lambda>s. CHR 0x27 # s @ [CHR 0x27]),
      json_str = (\<lambda>s. CHR 0x22 # s @ [CHR 0x22]),
      float_repr = (\<lambda>x. ''0.0''),
      sha256_hexdigest = (\<lambda>s. s)\<rparr>"

text \<open>
  A stand-in for the key pairs: the address of a wallet is its name after \<open>5\<close>, the
  signature of \<open>d\<close> is the bytes of the address followed by \<open>d\<close>, and verification
  compares with exactly that.
\<close>

definition ex_bt :: "(string, string) bittensor" where
  "ex_bt =
     \<lparr>ss58_address = (\<lambda>w. CHR ''5'' # w),
      hotkey_sign = (\<lambda>w d. map of_char (CHR ''5'' # w @ d)),
      Keypair = (\<lambda>a. if a = [] then Inl ValueError else Inr a),
      Keypair_verify = (\<lambda>kp d s. Inr (s = map of_char (kp @ d)))\<rparr>"

text \<open>An endpoint that answers every attempt with status 404.\<close>

definition ex_net :: network where
  "ex_net =
     \<lparr>outcome = (\<lambda>k. Reply 404 ''gone'' (Inl ''no json'')),
      status_error = (\<lambda>st. ''client error''),
      jitter = (\<lambda>k. 0),
      elapsed = (\<lambda>k. 0)\<rparr>"

text \<open>An endpoint whose first attempt fails in transit and that answers 404 afterwards.\<close>

definition ex_flaky :: network where
  "ex_flaky =
     \<lparr>outcome = (\<lambda>k. if k = 1 then Raised ''timeout'' else Reply 404 ''gone'' (Inl ''no json'')),
      status_error = (\<lambda>st. ''client error''),
      jitter = (\<lambda>k. 0),
      elapsed = (\<lambda>k. real k)\<rparr>"

text \<open>
  A signed Result, and a decoder of shard lines: the empty line does not decode, any other
  line decodes to that Result with the line as its signature.
\<close>

definition ex_signed :: Result where
  "ex_signed = sign ex_lib ex_bt ''w'' (ex_result (ex_miner ''hk'' None None None) ''SAT'' 1)"

definition ex_decode :: "string \<Rightarrow> py_error + Result" where
  "ex_decode raw = (if raw = [] then Inl ValidationError else Inr (ex_signed\<lparr>signature := raw\<rparr>))"

text \<open>
  The double written \<open>0.1\<close> in Python, and a stream on which rounding decides: \<open>A\<close>
  scores \<open>0.1\<close> three times, \<open>B\<close> once. The exact means are equal; in doubles
  \<open>(0.1 + 0.1 + 0.1) / 3\<close> is greater than \<open>0.1\<close>.
\<close>

definition tenth :: real where
  "tenth = 3602879701896397 / 36028797018963968"

definition ex_tenths_stream :: "Result list" where
  "ex_tenths_stream =
     [ex_result (ex_miner ''A'' (Some ''org/affine-a'') (Some ''ra'') (Some 9)) ''SAT'' tenth,
      ex_result (ex_miner ''A'' (Some ''org/affine-a'') (Some ''ra'') (Some 9)) ''SAT'' tenth,
      ex_result (ex_miner ''A'' (Some ''org/affine-a'') (Some ''ra'') (Some 9)) ''SAT'' tenth,
      ex_result (ex_miner ''B'' (Some ''org/affine-b'') (Some ''rb'') (Some 4)) ''SAT'' tenth]"

text \<open>The end-to-end scenario: three identities, two environments, six Results.\<close>

definition ex_stream :: "Result list" where
  "ex_stream =
     [ex_result (ex_miner ''A'' (Some ''org/Affine-a'') (Some ''ra'') (Some 7)) ''SAT'' 1,
      ex_result (ex_miner ''B'' (Some ''org/affine-b'') (Some ''rb'') (Some 3)) ''SAT'' (1/2),
      ex_result (ex_miner ''C'' (Some ''org/affine-c'') (Some ''rc'') (Some 1)) ''SAT'' (1/4),
      ex_result (ex_miner ''A'' (Some ''org/Affine-a'') (Some ''ra'') (Some 7)) ''ABD'' (1/2),
      ex_result (ex_miner ''B'' (Some ''org/affine-b'') (Some ''rb'') (Some 3)) ''ABD'' 1,
      ex_result (ex_miner ''C'' (Some ''org/affine-c'') (Some ''rc'') (Some 1)) ''ABD'' (1/4)]"

section \<open>Properties of the dense ranks\<close>

lemma map_of_rev_distinct:
  "distinct (map fst xs) \<Longrightarrow> map_of (rev xs) = map_of xs"
  by (rule map_of_inject_set[THEN iffD2]) (auto simp: rev_map[symmetric])

lemma rank_of_nth:
  assumes "distinct us" "i < length us"
  shows "rank_of us (us ! i) = Some (Suc i)"
proof -
  have "map_of (rev (zip us [1..<Suc (length us)])) = map_of (zip us [1..<Suc (length us)])"
    using assms by (intro map_of_rev_distinct) simp
  moreover have "map_of (zip us [1..<Suc (length us)]) (us ! i) = Some ([1..<Suc (length us)] ! i)"
    using assms by (intro map_of_zip_nth) auto
  moreover have "[1..<Suc (length us)] ! i = Suc i"
    using assms(2) by (simp del: upt_Suc)
  ultimately show ?thesis by (simp add: rank_of_def)
qed

lemma desc_greater_take:
  assumes "sorted (rev us)" "distinct us" "i < length us"
  shows "{u \<in> set us. us ! i < u} = set (take i us)"
proof -
  have desc: "\<And>j k. j < k \<Longrightarrow> k < length us \<Longrightarrow> us ! k < us ! j"
  proof -
    fix j k assume jk: "j < k" "k < length us"
    have "rev us ! (length us - Suc k) \<le> rev us ! (length us - Suc j)"
      using assms(1) jk by (intro sorted_nth_mono) auto
    then have "us ! k \<le> us ! j" using jk by (simp add: rev_nth)
    moreover have "us ! k \<noteq> us ! j" using assms(2) jk by (simp add: nth_eq_iff_index_eq)
    ultimately show "us ! k < us ! j" by simp
  qed
  show ?thesis
  proof (intro set_eqI iffI)
    fix u assume "u \<in> {u \<in> set us. us ! i < u}"
    then obtain j where j: "j < length us" "u = us ! j" "us ! i < us ! j"
      by (auto simp: in_set_conv_nth)
    have "j < i"
    proof (rule ccontr)
      assume "\<not> j < i"
      then have "j = i \<or> i < j" by auto
      then show False using desc[of i j] j by auto
    qed
    then show "u \<in> set (take i us)" using j assms(3) by (auto simp: in_set_conv_nth)
  next
    fix u assume "u \<in> set (take i us)"
    then obtain j where "j < i" "u = us ! j" using assms(3) by (auto simp: in_set_conv_nth)
    then show "u \<in> {u \<in> set us. us ! i < u}" using desc[of j i] assms(3) by auto
  qed
qed

lemma uniq_props: "set (uniq vs) = set vs" "distinct (uniq vs)" "sorted (rev (uniq vs))"
  by (simp_all add: uniq_def)

lemma rank_of_uniq:
  assumes "v \<in> set vs"
  shows "rank_of (uniq vs) v = Some (Suc (card {u \<in> set vs. v < u}))"
proof -
  from assms obtain i where i: "i < length (uniq vs)" "uniq vs ! i = v"
    by (metis in_set_conv_nth uniq_props(1))
  have "{u \<in> set vs. v < u} = set (take i (uniq vs))"
    using desc_greater_take[OF uniq_props(3) uniq_props(2) i(1)] i(2) by (simp add: uniq_props(1))
  moreover have "card (set (take i (uniq vs))) = i"
    using i(1) by (simp add: distinct_card uniq_props(2))
  ultimately show ?thesis using rank_of_nth[OF uniq_props(2) i(1)] i(2) by simp
qed

lemma ranks_dict_ok:
  "\<forall>h\<in>set hs. ro (a h) \<noteq> None \<Longrightarrow>
   ranks_dict ro a hs d = Inr (\<lambda>h. if h \<in> set hs then ro (a h) else d h)"
proof (induction hs arbitrary: d)
  case Nil then show ?case by simp
next
  case (Cons h hs)
  then obtain r where r: "ro (a h) = Some r" by auto
  show ?case using Cons r by (auto intro!: arg_cong[where f=Inr] simp: fun_eq_iff)
qed

lemma ranks_env_eq:
  "ranks_env a hs = Inr (\<lambda>h. if h \<in> set hs then Some (Suc (card {v \<in> a ` set hs. a h < v})) else None)"
proof -
  have "\<forall>h\<in>set hs. rank_of (uniq (map a hs)) (a h) = Some (Suc (card {v \<in> a ` set hs. a h < v}))"
    by (auto simp: rank_of_uniq)
  then show ?thesis
    unfolding ranks_env_def by (subst ranks_dict_ok) (auto simp: fun_eq_iff)
qed

lemma above_count_image:
  fixes V :: "'a::linorder set"
  assumes "finite V"
  shows "(\<lambda>x. Suc (card {v \<in> V. x < v})) ` V = {1..card V}"
proof -
  let ?f = "\<lambda>x. card {v \<in> V. x < v}"
  have anti: "?f y < ?f x" if "x \<in> V" "y \<in> V" "x < y" for x y
  proof (rule psubset_card_mono)
    show "finite {v \<in> V. x < v}" using assms by simp
    show "{v \<in> V. y < v} \<subset> {v \<in> V. x < v}" using that by auto
  qed
  have inj: "inj_on ?f V"
  proof (rule inj_onI)
    fix x y assume xy: "x \<in> V" "y \<in> V" "?f x = ?f y"
    show "x = y"
    proof (rule ccontr)
      assume "x \<noteq> y"
      then have "x < y \<or> y < x" by auto
      then show False using anti[of x y] anti[of y x] xy by auto
    qed
  qed
  have bound: "?f x < card V" if "x \<in> V" for x
  proof (rule psubset_card_mono)
    show "finite V" by (rule assms)
    show "{v \<in> V. x < v} \<subset> V" using that by auto
  qed
  have "?f ` V = {0..<card V}"
  proof (rule card_subset_eq)
    show "finite {0..<card V}" by simp
    show "?f ` V \<subseteq> {0..<card V}" using bound by auto
    show "card (?f ` V) = card {0..<card V}" using inj by (simp add: card_image)
  qed
  then have "Suc ` ?f ` V = Suc ` {0..<card V}" by simp
  then show ?thesis by (simp add: image_image atLeastLessThanSuc_atLeastAtMost)
qed

lemma above_count_one:
  fixes V :: "'a::linorder set"
  assumes "finite V"
  shows "(card {v \<in> V. x < v} = 0) = (\<forall>v\<in>V. v \<le> x)"
  using assms by (auto simp: not_less)

lemma above_count_anti:
  fixes V :: "'a::linorder set"
  assumes "finite V" "y \<in> V" "x < y"
  shows "card {v \<in> V. y < v} < card {v \<in> V. x < v}"
proof (rule psubset_card_mono)
  show "finite {v \<in> V. x < v}" using assms by simp
  show "{v \<in> V. y < v} \<subset> {v \<in> V. x < v}" using assms by auto
qed

lemma uniq_example_tied: "uniq [9/10, 9/10, 1/2::real] = [9/10, 1/2]"
  by (simp add: uniq_def)

lemma uniq_example_strict: "uniq [9/10, 4/5, 1/2::real] = [9/10, 4/5, 1/2]"
  by (simp add: uniq_def)

lemma ranks_example_tied:
  "(case ranks_env (\<lambda>h. if h = ''A'' then 9/10 else if h = ''B'' then 9/10 else (1/2 :: real))
          [''A'', ''B'', ''C''] of
      Inl err \<Rightarrow> [] | Inr R \<Rightarrow> map R [''A'', ''B'', ''C'']) = [Some 1, Some 1, Some 2]"
  by (simp add: ranks_env_def uniq_example_tied rank_of_def)

lemma ranks_example_strict:
  "(case ranks_env (\<lambda>h. if h = ''A'' then 9/10 else if h = ''B'' then 8/10 else (1/2 :: real))
          [''A'', ''B'', ''C''] of
      Inl err \<Rightarrow> [] | Inr R \<Rightarrow> map R [''A'', ''B'', ''C'']) = [Some 1, Some 2, Some 3]"
  by (simp add: ranks_env_def uniq_example_strict rank_of_def)

text \<open>
  Claim C2. For every environment, \<open>ranks_env\<close> never raises and gives every registered
  identity the dense rank of its accuracy, descending: the rank of \<open>h\<close> is one more than
  the number of distinct accuracy values greater than its own. Hence the highest accuracy
  (and only it) has rank 1, equal accuracies share a rank, a higher accuracy has a strictly
  smaller rank, and the ranks used are exactly \<open>1, ..., n\<close> for \<open>n\<close> distinct accuracy values
  (no gaps). The accuracy vector \<open>[0.9, 0.9, 0.5]\<close> yields the ranks \<open>[1, 1, 2]\<close> and
  \<open>[0.9, 0.8, 0.5]\<close> yields \<open>[1, 2, 3]\<close>.
\<close>

theorem dense_rank_law:
  fixes a :: "string \<Rightarrow> 'a::linorder"
  shows "(\<exists>R. ranks_env a hs = Inr R \<and> dom R = set hs
      \<and> (\<forall>h\<in>set hs. R h = Some (Suc (card {v \<in> a ` set hs. a h < v})))
      \<and> (\<forall>h\<in>set hs. (R h = Some 1) = (\<forall>g\<in>set hs. a g \<le> a h))
      \<and> (\<forall>h\<in>set hs. \<forall>g\<in>set hs.
            (a h = a g \<longrightarrow> R h = R g) \<and> (a g < a h \<longrightarrow> the (R h) < the (R g)))
      \<and> R ` set hs = Some ` {1..card (a ` set hs)})
    \<and> (case ranks_env (\<lambda>h. if h = ''A'' then 9/10 else if h = ''B'' then 9/10 else (1/2 :: real))
              [''A'', ''B'', ''C''] of
          Inl err \<Rightarrow> [] | Inr R \<Rightarrow> map R [''A'', ''B'', ''C'']) = [Some 1, Some 1, Some 2]
    \<and> (case ranks_env (\<lambda>h. if h = ''A'' then 9/10 else if h = ''B'' then 8/10 else (1/2 :: real))
              [''A'', ''B'', ''C''] of
          Inl err \<Rightarrow> [] | Inr R \<Rightarrow> map R [''A'', ''B'', ''C'']) = [Some 1, Some 2, Some 3]"
proof (intro conjI)
  let ?R = "\<lambda>h. if h \<in> set hs then Some (Suc (card {v \<in> a ` set hs. a h < v})) else None"
  have fin: "finite (a ` set hs)" by simp
  have one: "\<forall>h\<in>set hs. (?R h = Some 1) = (\<forall>g\<in>set hs. a g \<le> a h)"
    using above_count_one[OF fin] by auto
  have mono: "\<forall>h\<in>set hs. \<forall>g\<in>set hs.
      (a h = a g \<longrightarrow> ?R h = ?R g) \<and> (a g < a h \<longrightarrow> the (?R h) < the (?R g))"
    using above_count_anti[OF fin] by auto
  have "?R ` set hs = Some ` (\<lambda>x. Suc (card {v \<in> a ` set hs. x < v})) ` a ` set hs"
    by (auto simp: image_iff)
  then have gaps: "?R ` set hs = Some ` {1..card (a ` set hs)}"
    by (simp only: above_count_image[OF fin])
  have domR: "dom ?R = set hs" by (auto simp: dom_def)
  show "\<exists>R. ranks_env a hs = Inr R \<and> dom R = set hs
      \<and> (\<forall>h\<in>set hs. R h = Some (Suc (card {v \<in> a ` set hs. a h < v})))
      \<and> (\<forall>h\<in>set hs. (R h = Some 1) = (\<forall>g\<in>set hs. a g \<le> a h))
      \<and> (\<forall>h\<in>set hs. \<forall>g\<in>set hs.
            (a h = a g \<longrightarrow> R h = R g) \<and> (a g < a h \<longrightarrow> the (R h) < the (R g)))
      \<and> R ` set hs = Some ` {1..card (a ` set hs)}"
    apply (rule exI[of _ ?R])
    apply (intro conjI)
         apply (rule ranks_env_eq)
        apply (rule domR)
       apply simp
      apply (rule one)
     apply (rule mono)
    apply (rule gaps)
    done
qed (rule ranks_example_tied, rule ranks_example_strict)

theorem dense_rank_law_witness:
  "\<exists>R. ranks_env (\<lambda>h. if h = ''A'' then 9/10 else if h = ''B'' then 9/10 else (1/2 :: real))
         [''A'', ''B'', ''C''] = Inr R
     \<and> R ''A'' = Some 1 \<and> R ''B'' = Some 1 \<and> R ''B'' = R ''A''"
proof -
  let ?a = "\<lambda>h. if h = ''A'' then 9/10 else if h = ''B'' then 9/10 else (1/2 :: real)"
  let ?hs = "[''A'', ''B'', ''C'']"
  have "\<exists>R. ranks_env ?a ?hs = Inr R \<and> dom R = set ?hs
      \<and> (\<forall>h\<in>set ?hs. R h = Some (Suc (card {v \<in> ?a ` set ?hs. ?a h < v})))
      \<and> (\<forall>h\<in>set ?hs. (R h = Some 1) = (\<forall>g\<in>set ?hs. ?a g \<le> ?a h))
      \<and> (\<forall>h\<in>set ?hs. \<forall>g\<in>set ?hs.
            (?a h = ?a g \<longrightarrow> R h = R g) \<and> (?a g < ?a h \<longrightarrow> the (R h) < the (R g)))
      \<and> R ` set ?hs = Some ` {1..card (?a ` set ?hs)}"
    by (rule conjunct1[OF dense_rank_law[of ?a ?hs]])
  then obtain R where R1: "ranks_env ?a ?hs = Inr R"
    and R4: "\<forall>h\<in>set ?hs. (R h = Some 1) = (\<forall>g\<in>set ?hs. ?a g \<le> ?a h)"
    by (elim exE conjE)
  have A: "R ''A'' = Some 1" using R4[rule_format, of "''A''"] by simp
  have B: "R ''B'' = Some 1" using R4[rule_format, of "''B''"] by simp
  show ?thesis using R1 A B by simp
qed

section \<open>Properties of the accumulation loop\<close>

lemma reset_cnt: "cnt (reset st c) = cnt st"
  by (simp add: reset_def Let_def split: option.splits)

lemma reset_prev: "prev (reset st c) = prev st"
  by (simp add: reset_def Let_def split: option.splits)

lemma reset_succ_changed:
  assumes "map_of (prev st) (Miner.hotkey (miner c)) = Some p" "triple (miner p) \<noteq> triple (miner c)"
  shows "succ (reset st c) = set2 (succ st) (Miner.hotkey (miner c)) (Challenge.env (challenge c)) 0"
  using assms by (auto simp: reset_def Let_def triple_def)

text \<open>
  Claim C3. When a Result \<open>c\<close> is processed (not skipped) for the identity
  \<open>h = c.miner.hotkey\<close>, a previous Result \<open>p\<close> is on record for \<open>h\<close> and the
  \<open>(block, model, revision)\<close> triple of \<open>p\<close>'s miner differs from that of \<open>c\<close>'s miner, then
  the step is the reset followed by the accumulation; the reset sets the score-sum of
  \<open>(h, c's environment)\<close> to zero, changes no other score-sum and no trial count at all; so
  after the step the score-sum of \<open>(h, env)\<close> is \<open>0 + c.evaluation.score\<close>, which is
  exactly \<open>c\<close>'s score as adding a float to zero does not round, while its trial count is
  the old count plus one, and every other pair keeps its count and its sum. This holds for
  every float arithmetic.
\<close>

theorem reset_clears_sum_keeps_count:
  assumes "observed hotkeys c"
      and "map_of (prev st) (Miner.hotkey (miner c)) = Some p"
      and "triple (miner p) \<noteq> triple (miner c)"
  shows "step F hotkeys st c = Inr (accumulate F (reset st c) c)
     \<and> cnt (reset st c) = cnt st
     \<and> succ (reset st c) (Miner.hotkey (miner c)) (Challenge.env (challenge c)) = 0
     \<and> (\<forall>h e. (h, e) \<noteq> (Miner.hotkey (miner c), Challenge.env (challenge c))
            \<longrightarrow> succ (reset st c) h e = succ st h e)
     \<and> (\<exists>st'. step F hotkeys st c = Inr st'
          \<and> succ st' (Miner.hotkey (miner c)) (Challenge.env (challenge c))
              = fadd F 0 (score (evaluation c))
          \<and> (fadd F 0 (score (evaluation c)) = score (evaluation c) \<longrightarrow>
               succ st' (Miner.hotkey (miner c)) (Challenge.env (challenge c)) = score (evaluation c))
          \<and> cnt st' (Miner.hotkey (miner c)) (Challenge.env (challenge c))
              = cnt st (Miner.hotkey (miner c)) (Challenge.env (challenge c)) + 1
          \<and> (\<forall>h e. (h, e) \<noteq> (Miner.hotkey (miner c), Challenge.env (challenge c))
                \<longrightarrow> cnt st' h e = cnt st h e \<and> succ st' h e = succ st h e))"
proof -
  have s: "step F hotkeys st c = Inr (accumulate F (reset st c) c)"
    using assms(1) by (auto simp: step_def observed_def split: sum.splits)
  have r: "succ (reset st c) = set2 (succ st) (Miner.hotkey (miner c)) (Challenge.env (challenge c)) 0"
    by (rule reset_succ_changed[OF assms(2,3)])
  show ?thesis
    unfolding s by (auto simp: r reset_cnt accumulate_def Let_def set2_def)
qed

lemma model_name_example: "model_name (ex_result (ex_miner hk (Some ''org/Affine-x'') r b) e s) = Inr ''affine-x''"
  by (simp add: model_name_def ex_result_def ex_miner_def split1_def lower_def lower_char_def)

lemma observed_example: "observed [''hk1''] (ex_result (ex_miner ''hk1'' (Some ''org/Affine-x'') r b) e s)"
  by (simp add: observed_def model_name_example startswith_def) (simp add: ex_result_def ex_miner_def)

theorem reset_clears_sum_keeps_count_witness:
  "\<exists>st'. step ex_binary64 [''hk1''] (accumulate ex_binary64 init_tally (ex_result (ex_miner ''hk1'' (Some ''org/Affine-x'') (Some ''r1'') (Some 5)) ''SAT'' 1))
          (ex_result (ex_miner ''hk1'' (Some ''org/Affine-x'') (Some ''r1'') (Some 9)) ''SAT'' (1/2)) = Inr st'
     \<and> succ st' ''hk1'' ''SAT'' = 1/2 \<and> cnt st' ''hk1'' ''SAT'' = 2"
proof -
  let ?r1 = "ex_result (ex_miner ''hk1'' (Some ''org/Affine-x'') (Some ''r1'') (Some 5)) ''SAT'' 1"
  let ?r2 = "ex_result (ex_miner ''hk1'' (Some ''org/Affine-x'') (Some ''r1'') (Some 9)) ''SAT'' (1/2)"
  let ?st = "accumulate ex_binary64 init_tally ?r1"
  have hk: "Miner.hotkey (miner ?r2) = ''hk1''" "Challenge.env (challenge ?r2) = ''SAT''"
    "score (evaluation ?r2) = 1/2"
    by (simp_all add: ex_result_def ex_miner_def)
  have p: "map_of (prev ?st) (Miner.hotkey (miner ?r2)) = Some ?r1"
    by (simp add: accumulate_def init_tally_def Let_def ex_result_def ex_miner_def)
  have t: "triple (miner ?r1) \<noteq> triple (miner ?r2)"
    by (simp add: triple_def ex_result_def ex_miner_def)
  have c: "cnt ?st ''hk1'' ''SAT'' = 1"
    by (simp add: accumulate_def init_tally_def Let_def set2_def ex_result_def ex_miner_def)
  have z: "fadd ex_binary64 0 (score (evaluation ?r2)) = score (evaluation ?r2)"
    unfolding hk by code_simp
  from reset_clears_sum_keeps_count[OF observed_example p t, of ex_binary64] z obtain st' where
    "step ex_binary64 [''hk1''] ?st ?r2 = Inr st'"
    "succ st' (Miner.hotkey (miner ?r2)) (Challenge.env (challenge ?r2)) = score (evaluation ?r2)"
    "cnt st' (Miner.hotkey (miner ?r2)) (Challenge.env (challenge ?r2))
       = cnt ?st (Miner.hotkey (miner ?r2)) (Challenge.env (challenge ?r2)) + 1"
    by blast
  then show ?thesis unfolding hk c by auto
qed

text \<open>
  A Result that is not observed and whose model id has a \<open>'/'\<close> leaves the accumulators as
  they are.
\<close>

lemma step_skip:
  "model_name c = Inr name \<Longrightarrow> \<not> observed hotkeys c \<Longrightarrow> step F hotkeys st c = Inr st"
  by (auto simp: step_def observed_def)

text \<open>
  Claim C9 (the code departs from it). The naming check reads
  \<open>c.miner.model.split('/',1)[1]\<close> before the test \<open>hk not in cnt\<close> and outside any
  \<open>try\<close>: a Result of an unregistered miner whose \<open>model\<close> is \<open>None\<close> raises
  \<open>AttributeError\<close>, one whose model id has no \<open>'/'\<close> raises \<open>IndexError\<close>, and the
  exception ends \<open>get_weights\<close> even when the stream also holds a valid Result of a
  registered miner.
\<close>

theorem skip_path_raises:
  "step F [''hk0''] init_tally (ex_result (ex_miner ''hk1'' None None None) ''SAT'' 1)
      = Inl AttributeError
   \<and> step F [''hk0''] init_tally (ex_result (ex_miner ''hk1'' (Some ''affine'') None None) ''SAT'' 1)
      = Inl IndexError
   \<and> get_weights F [''hk0'']
        [ex_result (ex_miner ''hk0'' (Some ''org/Affine-x'') (Some ''r1'') (Some 5)) ''SAT'' 1,
         ex_result (ex_miner ''hk1'' None None None) ''SAT'' 1]
      = Inl AttributeError"
proof -
  have "step F [''hk0''] st (ex_result (ex_miner ''hk1'' None None None) ''SAT'' 1)
      = Inl AttributeError" for st
    by (simp add: step_def model_name_def ex_result_def ex_miner_def)
  moreover have "step F [''hk0''] init_tally
      (ex_result (ex_miner ''hk1'' (Some ''affine'') None None) ''SAT'' 1) = Inl IndexError"
    by (simp add: step_def model_name_def ex_result_def ex_miner_def split1_def)
  moreover have "\<exists>st. step F [''hk0''] init_tally
      (ex_result (ex_miner ''hk0'' (Some ''org/Affine-x'') (Some ''r1'') (Some 5)) ''SAT'' 1) = Inr st"
    by (simp add: step_def model_name_example)
  ultimately show ?thesis
    by (auto simp: get_weights_def)
qed

theorem skip_path_raises_witness:
  "step ex_binary64 [''hk0''] init_tally (ex_result (ex_miner ''hk1'' None None None) ''SAT'' 1)
      = Inl AttributeError"
  using skip_path_raises[of ex_binary64] by (rule conjunct1)

section \<open>Properties of the winner selection\<close>

lemma ranks_all_eq:
  "ranks_all A hs es R0 =
     Inr (\<lambda>e. if e \<in> set es
               then Some (\<lambda>h. if h \<in> set hs
                                then Some (Suc (card {v \<in> (\<lambda>g. A g e) ` set hs. A h e < v}))
                                else None)
               else R0 e)"
proof (induction es arbitrary: R0)
  case Nil
  show ?case by simp
next
  case (Cons e es)
  show ?case
    by (simp add: ranks_env_eq Cons.IH fun_eq_iff)
qed

lemma lookup2_ranks:
  assumes "ranks_all (acc F st) hs ENVS Map.empty = Inr R" "e \<in> set ENVS" "a \<in> set hs"
  shows "lookup2 R e a = Inr (dense_rank F st hs e a)"
proof -
  have "R = (\<lambda>e. if e \<in> set ENVS
               then Some (\<lambda>h. if h \<in> set hs
                                then Some (Suc (card {v \<in> (\<lambda>g. acc F st g e) ` set hs. acc F st h e < v}))
                                else None)
               else None)"
    using assms(1) unfolding ranks_all_eq by simp
  then show ?thesis using assms(2,3) by (simp add: lookup2_def dense_rank_def)
qed

lemma all_le_eq:
  assumes "\<forall>e\<in>set es. lookup2 R e a = Inr (f e) \<and> lookup2 R e b = Inr (g e)"
  shows "all_le R a b es = Inr (\<forall>e\<in>set es. f e \<le> g e)"
  using assms by (induction es) auto

lemma any_lt_eq:
  assumes "\<forall>e\<in>set es. lookup2 R e a = Inr (f e) \<and> lookup2 R e b = Inr (g e)"
  shows "any_lt R a b es = Inr (\<exists>e\<in>set es. f e < g e)"
  using assms by (induction es) auto

lemma dominates_eq:
  assumes "ranks_all (acc F st) hs ENVS Map.empty = Inr R" "a \<in> set hs" "b \<in> set hs"
  shows "dominates R a b = Inr (pareto F st hs a b)"
proof -
  have l: "\<forall>e\<in>set ENVS. lookup2 R e a = Inr (dense_rank F st hs e a)
                        \<and> lookup2 R e b = Inr (dense_rank F st hs e b)"
    using lookup2_ranks[OF assms(1)] assms(2,3) by blast
  show ?thesis
    unfolding dominates_def all_le_eq[OF l] any_lt_eq[OF l] pareto_def by simp
qed

lemma dom_loop_eq:
  assumes "\<forall>(a, b)\<in>set ps. dominates R a b = Inr (P a b)"
  shows "dom_loop R ps d =
           Inr (\<lambda>h. d h + int (length (filter (\<lambda>(a, b). a = h \<and> P a b) ps)))"
  using assms
proof (induction ps arbitrary: d)
  case Nil
  show ?case by simp
next
  case (Cons p ps)
  obtain a b where p: "p = (a, b)" by (cases p)
  have d: "dominates R a b = Inr (P a b)" using Cons.prems p by simp
  have rest: "\<forall>(a, b)\<in>set ps. dominates R a b = Inr (P a b)" using Cons.prems by simp
  show ?case
    unfolding p by (simp add: d Cons.IH[OF rest] fun_eq_iff)
qed

lemma permutations2_set: "set (permutations2 xs) \<subseteq> set xs \<times> set xs"
  by (auto simp: permutations2_def)

lemma length_filter_concat:
  "length (filter Q (concat xss)) = sum_list (map (\<lambda>xs. length (filter Q xs)) xss)"
  by (induction xss) auto

lemma permutations2_count:
  assumes "distinct xs" "h \<in> set xs"
  shows "length (filter (\<lambda>(a, b). a = h \<and> P a b) (permutations2 xs))
           = card {b \<in> set xs. b \<noteq> h \<and> P h b}"
proof -
  let ?n = "length xs"
  from assms(2) obtain i0 where i0: "i0 < ?n" "xs ! i0 = h" by (auto simp: in_set_conv_nth)
  have uniq_i: "\<And>i. i < ?n \<Longrightarrow> (xs ! i = h) = (i = i0)"
    using assms(1) i0 by (auto simp: nth_eq_iff_index_eq)
  let ?row = "\<lambda>i. length (filter (\<lambda>(a, b). a = h \<and> P a b)
                      (map (\<lambda>j. (xs ! i, xs ! j)) (filter (\<lambda>j. j \<noteq> i) [0..<?n])))"
  have row: "?row i = (if i = i0 then card {b \<in> set xs. b \<noteq> h \<and> P h b} else 0)" if "i < ?n" for i
  proof (cases "i = i0")
    case False
    then have "xs ! i \<noteq> h" using uniq_i[OF that] by simp
    then show ?thesis using False by (simp add: filter_map o_def)
  next
    case True
    have "?row i = length (filter (\<lambda>j. j \<noteq> i0 \<and> P h (xs ! j)) [0..<?n])"
      using True i0 by (simp add: filter_map o_def conj_commute)
    also have "\<dots> = card {j. j < ?n \<and> j \<noteq> i0 \<and> P h (xs ! j)}"
      by (subst distinct_card[symmetric]) (auto intro!: arg_cong[where f=card])
    also have "\<dots> = card ((\<lambda>j. xs ! j) ` {j. j < ?n \<and> j \<noteq> i0 \<and> P h (xs ! j)})"
      using assms(1) by (subst card_image) (auto simp: inj_on_def nth_eq_iff_index_eq)
    also have "(\<lambda>j. xs ! j) ` {j. j < ?n \<and> j \<noteq> i0 \<and> P h (xs ! j)} = {b \<in> set xs. b \<noteq> h \<and> P h b}"
    proof (intro set_eqI iffI)
      fix b assume "b \<in> (\<lambda>j. xs ! j) ` {j. j < ?n \<and> j \<noteq> i0 \<and> P h (xs ! j)}"
      then obtain j where j: "j < ?n" "j \<noteq> i0" "P h (xs ! j)" "b = xs ! j" by auto
      then show "b \<in> {b \<in> set xs. b \<noteq> h \<and> P h b}" using uniq_i[of j] by auto
    next
      fix b assume "b \<in> {b \<in> set xs. b \<noteq> h \<and> P h b}"
      then obtain j where j: "j < ?n" "b = xs ! j" "b \<noteq> h" "P h b" by (auto simp: in_set_conv_nth)
      then have "j \<noteq> i0" using i0 by auto
      then show "b \<in> (\<lambda>j. xs ! j) ` {j. j < ?n \<and> j \<noteq> i0 \<and> P h (xs ! j)}" using j by auto
    qed
    finally show ?thesis using True by simp
  qed
  have "length (filter (\<lambda>(a, b). a = h \<and> P a b) (permutations2 xs))
          = sum_list (map ?row [0..<?n])"
    unfolding permutations2_def length_filter_concat by (simp add: o_def)
  also have "\<dots> = sum_list (map (\<lambda>i. if i = i0 then card {b \<in> set xs. b \<noteq> h \<and> P h b} else 0) [0..<?n])"
  proof (rule arg_cong[where f=sum_list], rule map_cong[OF refl])
    fix i assume "i \<in> set [0..<?n]"
    then have "i < ?n" by simp
    from row[OF this]
    show "?row i = (if i = i0 then card {b \<in> set xs. b \<noteq> h \<and> P h b} else 0)" .
  qed
  also have "\<dots> = (\<Sum>i\<in>{0..<?n}. if i = i0 then card {b \<in> set xs. b \<noteq> h \<and> P h b} else 0)"
    by (simp add: interv_sum_list_conv_sum_set_nat)
  also have "\<dots> = card {b \<in> set xs. b \<noteq> h \<and> P h b}"
    using i0(1) by (simp add: sum.delta)
  finally show ?thesis .
qed

lemma pareto_irrefl: "\<not> pareto F st hs a a"
  by (simp add: pareto_def)

lemma dom_count_eq:
  assumes "distinct hs" "ranks_all (acc F st) hs ENVS Map.empty = Inr R"
  shows "dom_loop R (permutations2 hs) (\<lambda>hk. 0)
           = Inr (\<lambda>h. if h \<in> set hs then int (dominance_count F st hs h) else 0)"
proof -
  have d: "\<forall>(a, b)\<in>set (permutations2 hs). dominates R a b = Inr (pareto F st hs a b)"
    using permutations2_set[of hs] dominates_eq[OF assms(2)] by blast
  have "(\<lambda>h. 0 + int (length (filter (\<lambda>(a, b). a = h \<and> pareto F st hs a b) (permutations2 hs))))
          = (\<lambda>h. if h \<in> set hs then int (dominance_count F st hs h) else 0)"
  proof (rule ext)
    fix h
    show "0 + int (length (filter (\<lambda>(a, b). a = h \<and> pareto F st hs a b) (permutations2 hs)))
            = (if h \<in> set hs then int (dominance_count F st hs h) else 0)"
    proof (cases "h \<in> set hs")
      case True
      have "{b \<in> set hs. b \<noteq> h \<and> pareto F st hs h b} = {b \<in> set hs. pareto F st hs h b}"
        using pareto_irrefl by blast
      then show ?thesis
        using True permutations2_count[OF assms(1) True, of "pareto F st hs"]
        by (simp add: dominance_count_def)
    next
      case False
      have "filter (\<lambda>(a, b). a = h \<and> pareto F st hs a b) (permutations2 hs) = []"
        using False permutations2_set[of hs] by (auto simp: filter_empty_conv)
      then show ?thesis using False by simp
    qed
  qed
  then show ?thesis unfolding dom_loop_eq[OF d] by simp
qed

lemma key_le_trans: "\<not> key_gt a b \<Longrightarrow> \<not> key_gt b c \<Longrightarrow> \<not> key_gt a c"
  by (auto simp: key_gt_def)

lemma key_gt_le: "key_gt a b \<Longrightarrow> \<not> key_gt b a"
  by (auto simp: key_gt_def)

lemma max_loop_spec:
  assumes "max_loop key xs m mk = Inr r" "key m = Inr mk"
  shows "r \<in> set (m # xs)
       \<and> (\<exists>rk. key r = Inr rk \<and> \<not> key_gt mk rk \<and> (\<forall>x\<in>set xs. \<exists>k. key x = Inr k \<and> \<not> key_gt k rk))"
  using assms
proof (induction xs arbitrary: m mk)
  case Nil
  then show ?case by (simp add: key_gt_def)
next
  case (Cons x xs)
  from Cons.prems(1) obtain k where k: "key x = Inr k" by (auto split: sum.splits)
  show ?case
  proof (cases "key_gt k mk")
    case True
    then have "max_loop key xs x k = Inr r" using Cons.prems(1) k by simp
    from Cons.IH[OF this k] obtain rk where
      rk: "r \<in> set (x # xs)" "key r = Inr rk" "\<not> key_gt k rk"
          "\<forall>y\<in>set xs. \<exists>k'. key y = Inr k' \<and> \<not> key_gt k' rk" by blast
    have m: "\<not> key_gt mk rk" using key_le_trans[OF key_gt_le[OF True] rk(3)] .
    have r_in: "r \<in> set (m # x # xs)" using rk(1) by auto
    have "\<exists>k'. key y = Inr k' \<and> \<not> key_gt k' rk" if "y \<in> set (x # xs)" for y
    proof (cases "y = x")
      case True then show ?thesis using k rk(3) by blast
    next
      case False then show ?thesis using that rk(4) by simp
    qed
    then show ?thesis using r_in rk(2) m by blast
  next
    case False
    then have "max_loop key xs m mk = Inr r" using Cons.prems(1) k by simp
    from Cons.IH[OF this Cons.prems(2)] obtain rk where
      rk: "r \<in> set (m # xs)" "key r = Inr rk" "\<not> key_gt mk rk"
          "\<forall>y\<in>set xs. \<exists>k'. key y = Inr k' \<and> \<not> key_gt k' rk" by blast
    have kk: "\<not> key_gt k rk" using key_le_trans[OF False rk(3)] .
    have r_in: "r \<in> set (m # x # xs)" using rk(1) by auto
    have "\<exists>k'. key y = Inr k' \<and> \<not> key_gt k' rk" if "y \<in> set (x # xs)" for y
    proof (cases "y = x")
      case True then show ?thesis using k kk by blast
    next
      case False then show ?thesis using that rk(4) by simp
    qed
    then show ?thesis using r_in rk(2) rk(3) by blast
  qed
qed

lemma py_max_spec:
  assumes "py_max key xs = Inr r"
  shows "r \<in> set xs \<and> (\<exists>rk. key r = Inr rk \<and> (\<forall>x\<in>set xs. \<exists>k. key x = Inr k \<and> \<not> key_gt k rk))"
proof (cases xs)
  case Nil
  then show ?thesis using assms by (simp add: py_max_def)
next
  case (Cons x xs')
  from assms Cons obtain k where k: "key x = Inr k" "max_loop key xs' x k = Inr r"
    by (auto simp: py_max_def split: sum.splits)
  from max_loop_spec[OF k(2) k(1)] obtain rk where
    rk: "r \<in> set (x # xs')" "key r = Inr rk" "\<not> key_gt k rk"
        "\<forall>y\<in>set xs'. \<exists>k'. key y = Inr k' \<and> \<not> key_gt k' rk" by blast
  have "\<exists>k'. key y = Inr k' \<and> \<not> key_gt k' rk" if "y \<in> set (x # xs')" for y
  proof (cases "y = x")
    case True then show ?thesis using k(1) rk(3) by blast
  next
    case False then show ?thesis using that rk(4) by simp
  qed
  then show ?thesis using rk(1,2) Cons by blast
qed

lemma index_of_spec: "index_of xs v = Inr i \<Longrightarrow> i < length xs \<and> xs ! i = v"
  by (induction xs arbitrary: i) (auto split: if_splits sum.splits)

lemma dict_set_map_fst: "set (map fst (dict_set d k v)) = insert k (set (map fst d))"
proof (induction d)
  case Nil
  show ?case by simp
next
  case (Cons p d)
  obtain k' v' where p: "p = (k', v')" by (cases p)
  show ?case
  proof (cases "k' = k")
    case True
    then show ?thesis unfolding p by simp
  next
    case False
    then show ?thesis unfolding p using Cons.IH by (simp add: insert_commute)
  qed
qed

lemma dict_set_keys: "fst ` set (dict_set d k v) = insert k (fst ` set d)"
  using dict_set_map_fst[of d k v] by simp

lemma step_prev_keys:
  assumes "step F hs st c = Inr st'"
  shows "fst ` set (prev st') =
           fst ` set (prev st) \<union> (if observed hs c then {Miner.hotkey (miner c)} else {})"
proof (cases "observed hs c")
  case True
  then have "step F hs st c = Inr (accumulate F (reset st c) c)"
    by (auto simp: step_def observed_def split: sum.splits)
  then have "st' = accumulate F (reset st c) c" using assms by simp
  then show ?thesis using True
    by (simp add: accumulate_def Let_def dict_set_keys reset_prev)
next
  case False
  from assms obtain name where "model_name c = Inr name"
    by (auto simp: step_def split: sum.splits)
  from step_skip[OF this False] assms have "st' = st" by simp
  then show ?thesis using False by simp
qed

lemma collect_prev_keys:
  assumes "collect F hs st cs = Inr st'"
  shows "fst ` set (prev st') =
           fst ` set (prev st) \<union> {Miner.hotkey (miner c) | c. c \<in> set cs \<and> observed hs c}"
  using assms
proof (induction cs arbitrary: st)
  case Nil
  then show ?case by simp
next
  case (Cons c cs)
  from Cons.prems obtain st1 where s: "step F hs st c = Inr st1" "collect F hs st1 cs = Inr st'"
    by (auto split: sum.splits)
  show ?case
    unfolding Cons.IH[OF s(2)] step_prev_keys[OF s(1)] by auto
qed

lemma map_of_dict_set: "map_of (dict_set d k v) = (map_of d)(k \<mapsto> v)"
  by (induction d) (auto simp: fun_eq_iff)

lemma step_prev_cnt:
  assumes "step F hs st c = Inr st'"
  shows "map_of (prev st') =
           (if observed hs c then (map_of (prev st))(Miner.hotkey (miner c) \<mapsto> c)
            else map_of (prev st))"
    and "cnt st' =
           (if observed hs c
            then set2 (cnt st) (Miner.hotkey (miner c)) (Challenge.env (challenge c))
                   (cnt st (Miner.hotkey (miner c)) (Challenge.env (challenge c)) + 1)
            else cnt st)"
proof -
  show "map_of (prev st') =
           (if observed hs c then (map_of (prev st))(Miner.hotkey (miner c) \<mapsto> c)
            else map_of (prev st))"
  proof (cases "observed hs c")
    case True
    then have "step F hs st c = Inr (accumulate F (reset st c) c)"
      by (auto simp: step_def observed_def split: sum.splits)
    then have "st' = accumulate F (reset st c) c" using assms by simp
    then show ?thesis using True
      by (simp add: accumulate_def Let_def map_of_dict_set reset_prev)
  next
    case False
    from assms obtain name where "model_name c = Inr name"
      by (auto simp: step_def split: sum.splits)
    from step_skip[OF this False] assms have "st' = st" by simp
    then show ?thesis using False by simp
  qed
  show "cnt st' =
           (if observed hs c
            then set2 (cnt st) (Miner.hotkey (miner c)) (Challenge.env (challenge c))
                   (cnt st (Miner.hotkey (miner c)) (Challenge.env (challenge c)) + 1)
            else cnt st)"
  proof (cases "observed hs c")
    case True
    then have "step F hs st c = Inr (accumulate F (reset st c) c)"
      by (auto simp: step_def observed_def split: sum.splits)
    then have "st' = accumulate F (reset st c) c" using assms by simp
    then show ?thesis using True
      by (simp add: accumulate_def Let_def reset_cnt)
  next
    case False
    from assms obtain name where "model_name c = Inr name"
      by (auto simp: step_def split: sum.splits)
    from step_skip[OF this False] assms have "st' = st" by simp
    then show ?thesis using False by simp
  qed
qed

lemma collect_prev_last:
  assumes "collect F hs st cs = Inr st'"
  shows "map_of (prev st') h =
           (case filter (\<lambda>c. observed hs c \<and> Miner.hotkey (miner c) = h) cs of
              [] \<Rightarrow> map_of (prev st) h
            | x # xs \<Rightarrow> Some (last (x # xs)))"
  using assms
proof (induction cs arbitrary: st)
  case Nil
  then show ?case by simp
next
  case (Cons c cs)
  from Cons.prems obtain st1 where s: "step F hs st c = Inr st1" "collect F hs st1 cs = Inr st'"
    by (auto split: sum.splits)
  note IH = Cons.IH[OF s(2)]
  note P = step_prev_cnt(1)[OF s(1)]
  show ?case
  proof (cases "observed hs c \<and> Miner.hotkey (miner c) = h")
    case True
    then have m: "map_of (prev st1) h = Some c" using P by simp
    show ?thesis using True IH m by (simp split: list.splits)
  next
    case False
    then have m: "map_of (prev st1) h = map_of (prev st) h" using P by auto
    have f: "filter (\<lambda>c. observed hs c \<and> Miner.hotkey (miner c) = h) (c # cs)
        = filter (\<lambda>c. observed hs c \<and> Miner.hotkey (miner c) = h) cs"
      using False by simp
    show ?thesis unfolding f using IH m by (simp split: list.splits)
  qed
qed

lemma collect_cnt:
  assumes "collect F hs st cs = Inr st'"
  shows "cnt st' h e = cnt st h e
           + int (length (filter (\<lambda>c. observed hs c \<and> Miner.hotkey (miner c) = h
                                       \<and> Challenge.env (challenge c) = e) cs))"
  using assms
proof (induction cs arbitrary: st)
  case Nil
  then show ?case by simp
next
  case (Cons c cs)
  from Cons.prems obtain st1 where s: "step F hs st c = Inr st1" "collect F hs st1 cs = Inr st'"
    by (auto split: sum.splits)
  note IH = Cons.IH[OF s(2)]
  note P = step_prev_cnt(2)[OF s(1)]
  show ?case using IH P by (auto simp: set2_def)
qed

lemma observed_registered: "observed hs c \<Longrightarrow> Miner.hotkey (miner c) \<in> set hs"
  by (auto simp: observed_def split: sum.splits)

lemma best_key_spec:
  assumes "best_key d prv h = Inr k"
  shows "\<exists>r b. map_of prv h = Some r \<and> block (miner r) = Some b \<and> k = (d h, - b)"
  using assms by (auto simp: best_key_def split: option.splits)

lemma key_not_gt:
  "\<not> key_gt (int m, - b) (int n, - bb) \<Longrightarrow> m \<le> n \<and> (m = n \<longrightarrow> bb \<le> b)"
  by (auto simp: key_gt_def)

text \<open>
  Claim C1. Let the registered hotkeys be pairwise different and let \<open>get_weights\<close> return
  \<open>(best_uid, best)\<close>, for any float arithmetic (the accuracies that are ranked are the
  rounded quotients of the rounded sums, as the code computes them). The identities with at least one observed (non-skipped) Result are the
  keys of \<open>prev\<close>. The winner \<open>best\<close> is one of them, \<open>best_uid\<close> is its position in
  \<open>meta.hotkeys\<close>, the Result on record for an identity is its last observed one, the trial
  count of an identity and an environment is the number of its observed Results there, no
  identity with an observed Result dominates more registered identities
  than \<open>best\<close> (dominance is Pareto dominance on the dense ranks of the three environments),
  and any identity with an observed Result and the same dominance count has a registration
  block (that of its latest recorded Result's miner) at least as high as the winner's.
\<close>

theorem winner_maximises_dominance:
  assumes "distinct hotkeys"
      and "get_weights F hotkeys stream = Inr (best_uid, best)"
  shows "\<exists>st. collect F hotkeys init_tally stream = Inr st
     \<and> fst ` set (prev st) = {Miner.hotkey (miner c) | c. c \<in> set stream \<and> observed hotkeys c}
     \<and> (\<forall>h. map_of (prev st) h =
            (case filter (\<lambda>c. observed hotkeys c \<and> Miner.hotkey (miner c) = h) stream of
               [] \<Rightarrow> None
             | x # xs \<Rightarrow> Some (last (x # xs))))
     \<and> (\<forall>h e. cnt st h e =
            int (length (filter (\<lambda>c. observed hotkeys c \<and> Miner.hotkey (miner c) = h
                                        \<and> Challenge.env (challenge c) = e) stream)))
     \<and> best \<in> fst ` set (prev st) \<and> best_uid < length hotkeys \<and> hotkeys ! best_uid = best
     \<and> (\<forall>h \<in> fst ` set (prev st).
          dominance_count F st hotkeys h \<le> dominance_count F st hotkeys best
          \<and> (dominance_count F st hotkeys h = dominance_count F st hotkeys best \<longrightarrow>
              (\<exists>r b rb bb. map_of (prev st) h = Some r \<and> block (miner r) = Some b
                 \<and> map_of (prev st) best = Some rb \<and> block (miner rb) = Some bb \<and> bb \<le> b)))"
proof -
  from assms(2) obtain st where st: "collect F hotkeys init_tally stream = Inr st"
    by (auto simp: get_weights_def split: sum.splits)
  from assms(2) st obtain R where R: "ranks_all (acc F st) hotkeys ENVS Map.empty = Inr R"
    by (auto simp: get_weights_def split: sum.splits if_splits)
  let ?d = "\<lambda>h. if h \<in> set hotkeys then int (dominance_count F st hotkeys h) else 0"
  have d: "dom_loop R (permutations2 hotkeys) (\<lambda>hk. 0) = Inr ?d"
    by (rule dom_count_eq[OF assms(1) R])
  from assms(2) st R d have mx: "py_max (best_key ?d (prev st)) (map fst (prev st)) = Inr best"
      and ix: "index_of hotkeys best = Inr best_uid"
    by (auto simp: get_weights_def split: sum.splits if_splits)
  have keys: "fst ` set (prev st) = {Miner.hotkey (miner c) | c. c \<in> set stream \<and> observed hotkeys c}"
    using collect_prev_keys[OF st] by (simp add: init_tally_def)
  then have reg: "fst ` set (prev st) \<subseteq> set hotkeys"
    using observed_registered by auto
  from py_max_spec[OF mx] obtain rk where
    b_in: "best \<in> set (map fst (prev st))" and rk: "best_key ?d (prev st) best = Inr rk"
    and le: "\<forall>x\<in>set (map fst (prev st)). \<exists>k. best_key ?d (prev st) x = Inr k \<and> \<not> key_gt k rk"
    by blast
  have b_in': "best \<in> fst ` set (prev st)" using b_in by simp
  from best_key_spec[OF rk] obtain rb bb where
    rb: "map_of (prev st) best = Some rb" "block (miner rb) = Some bb" "rk = (?d best, - bb)"
    by blast
  have rk': "rk = (int (dominance_count F st hotkeys best), - bb)"
    using rb(3) b_in' reg by auto
  have main: "dominance_count F st hotkeys h \<le> dominance_count F st hotkeys best
          \<and> (dominance_count F st hotkeys h = dominance_count F st hotkeys best \<longrightarrow>
              (\<exists>r b rb bb. map_of (prev st) h = Some r \<and> block (miner r) = Some b
                 \<and> map_of (prev st) best = Some rb \<and> block (miner rb) = Some bb \<and> bb \<le> b))"
    if h: "h \<in> fst ` set (prev st)" for h
  proof -
    from le h obtain k where k: "best_key ?d (prev st) h = Inr k" "\<not> key_gt k rk" by auto
    from best_key_spec[OF k(1)] obtain r b where
      r: "map_of (prev st) h = Some r" "block (miner r) = Some b" "k = (?d h, - b)" by blast
    have k': "k = (int (dominance_count F st hotkeys h), - b)" using r(3) h reg by auto
    from key_not_gt[OF k(2)[unfolded k' rk']] show ?thesis using r rb by blast
  qed
  have lastp: "\<forall>h. map_of (prev st) h =
            (case filter (\<lambda>c. observed hotkeys c \<and> Miner.hotkey (miner c) = h) stream of
               [] \<Rightarrow> None
             | x # xs \<Rightarrow> Some (last (x # xs)))"
    using collect_prev_last[OF st] by (simp add: init_tally_def split: list.splits)
  have cn: "\<forall>h e. cnt st h e =
            int (length (filter (\<lambda>c. observed hotkeys c \<and> Miner.hotkey (miner c) = h
                                        \<and> Challenge.env (challenge c) = e) stream))"
    using collect_cnt[OF st] by (simp add: init_tally_def)
  show ?thesis
    using st keys lastp cn b_in' index_of_spec[OF ix] main by blast
qed

lemma get_weights_example: "get_weights ex_binary64 [''A'', ''B'', ''C''] ex_stream = Inr (1, ''B'')"
  by code_simp

text \<open>
  On the stream of tenths the mean of \<open>A\<close> is rounded to the double above \<open>0.1\<close>: \<open>A\<close>
  ranks first, dominates \<open>B\<close> and wins, although its block is the higher one. Without
  rounding the two means are equal, nobody dominates, and \<open>B\<close>, with the lower block, would
  win.
\<close>

lemma tenths_mean:
  "fdiv ex_binary64 (fadd ex_binary64 (fadd ex_binary64 (fadd ex_binary64 0 tenth) tenth) tenth) 3
     = 7205759403792795 / 72057594037927936"
  "tenth = 7205759403792794 / 72057594037927936"
  by code_simp+

lemma get_weights_tenths_example:
  "get_weights ex_binary64 [''A'', ''B''] ex_tenths_stream = Inr (0, ''A'')"
  "get_weights ex_exact [''A'', ''B''] ex_tenths_stream = Inr (1, ''B'')"
  by code_simp+

theorem winner_maximises_dominance_witness:
  "distinct [''A'', ''B'', ''C'']
   \<and> get_weights ex_binary64 [''A'', ''B'', ''C''] ex_stream = Inr (1, ''B'')
   \<and> (\<exists>st. collect ex_binary64 [''A'', ''B'', ''C''] init_tally ex_stream = Inr st
     \<and> ''B'' \<in> fst ` set (prev st) \<and> [''A'', ''B'', ''C''] ! 1 = ''B''
     \<and> (\<forall>h \<in> fst ` set (prev st).
          dominance_count ex_binary64 st [''A'', ''B'', ''C''] h
            \<le> dominance_count ex_binary64 st [''A'', ''B'', ''C''] ''B''))
   \<and> get_weights ex_binary64 [''A'', ''B''] ex_tenths_stream = Inr (0, ''A'')
   \<and> (\<exists>st. collect ex_binary64 [''A'', ''B''] init_tally ex_tenths_stream = Inr st
     \<and> ''A'' \<in> fst ` set (prev st)
     \<and> (\<forall>h \<in> fst ` set (prev st).
          dominance_count ex_binary64 st [''A'', ''B''] h
            \<le> dominance_count ex_binary64 st [''A'', ''B''] ''A''))"
proof -
  have d3: "distinct [''A'', ''B'', ''C'']" by simp
  have d2: "distinct [''A'', ''B'']" by simp
  from winner_maximises_dominance[OF d3 get_weights_example]
  have a: "\<exists>st. collect ex_binary64 [''A'', ''B'', ''C''] init_tally ex_stream = Inr st
     \<and> ''B'' \<in> fst ` set (prev st) \<and> [''A'', ''B'', ''C''] ! 1 = ''B''
     \<and> (\<forall>h \<in> fst ` set (prev st).
          dominance_count ex_binary64 st [''A'', ''B'', ''C''] h
            \<le> dominance_count ex_binary64 st [''A'', ''B'', ''C''] ''B'')"
    by blast
  from winner_maximises_dominance[OF d2 get_weights_tenths_example(1)]
  have b: "\<exists>st. collect ex_binary64 [''A'', ''B''] init_tally ex_tenths_stream = Inr st
     \<and> ''A'' \<in> fst ` set (prev st)
     \<and> (\<forall>h \<in> fst ` set (prev st).
          dominance_count ex_binary64 st [''A'', ''B''] h
            \<le> dominance_count ex_binary64 st [''A'', ''B''] ''A'')"
    by blast
  show ?thesis using d3 a b get_weights_example get_weights_tenths_example(1) by blast
qed

section \<open>Properties of signing and verification\<close>

lemma hexdigit_table:
  "list_all (\<lambda>n. hexval (hexdigit n) = Some n \<and> \<not> is_space (hexdigit n)) [0..<16]"
  by code_simp

lemma hexval_hexdigit: "n < 16 \<Longrightarrow> hexval (hexdigit n) = Some n"
  using hexdigit_table by (simp add: list_all_iff del: upt_Suc)

lemma not_space_hexdigit: "n < 16 \<Longrightarrow> \<not> is_space (hexdigit n)"
  using hexdigit_table by (simp add: list_all_iff del: upt_Suc)

lemma byte_split: "word_of_nat (16 * (unat b div 16) + unat b mod 16) = (b :: byte)"
  by simp

lemma fromhex_hex: "fromhex (hex bs) = Inr bs"
proof (induction bs)
  case Nil
  show ?case by (simp add: hex_def)
next
  case (Cons b bs)
  have d: "unat b div 16 < 16" using unsigned_less[of b, where 'a=nat] by (simp add: less_mult_imp_div_less)
  have m: "unat b mod 16 < 16" by simp
  have "hex (b # bs) = hexdigit (unat b div 16) # hexdigit (unat b mod 16) # hex bs"
    by (simp add: hex_def)
  then show ?case
    using Cons.IH by (simp add: hexval_hexdigit[OF d] hexval_hexdigit[OF m] not_space_hexdigit[OF d]
        byte_split del: of_nat_add of_nat_mult)
qed




lemma verify_signed:
  assumes "Keypair B (ss58_address B w) = Inr kp"
      "Keypair_verify B kp (Challenge_repr L (challenge r))
          (hotkey_sign B w (Challenge_repr L (challenge r))) = Inr True"
  shows "verify L B (sign L B w r) = Inr True"
  using assms by (simp add: verify_def sign_def fromhex_hex)

lemma ex_bt_accepts:
  "\<forall>w d. \<exists>kp. Keypair ex_bt (ss58_address ex_bt w) = Inr kp
              \<and> Keypair_verify ex_bt kp d (hotkey_sign ex_bt w d) = Inr True"
  by (simp add: ex_bt_def)

text \<open>
  Claim C6. \<open>verify\<close> reads the signer identity (\<open>hotkey\<close>), the signature and the
  Challenge only: its value (a boolean or an exception) is the same after any change of the
  \<open>response\<close>, \<open>evaluation\<close>, \<open>miner\<close> and \<open>version\<close> fields, so a validly signed envelope with
  different scoring data for the same challenge still verifies.
\<close>

theorem verify_ignores_scoring_fields:
  "verify L B (r\<lparr>response := rs, evaluation := ev, miner := m, version := v\<rparr>) = verify L B r"
  by (simp add: verify_def cong: sum.case_cong)







section \<open>Properties of the truncated string form\<close>

lemma parse_env_name: "parse_env e = Inr n \<Longrightarrow> n = env_name e"
  by (auto simp: parse_env_def env_name_def split: env_arg.splits if_splits)

lemma new_Challenge_eq:
  "new_Challenge L e p x =
     (case parse_env e of
        Inl err \<Rightarrow> Inl err
      | Inr n \<Rightarrow>
          Inr \<lparr>Challenge.env = n, prompt = p, Challenge.extra = x,
               challenge_id = Some (sha256_hexdigest L (canonical L (env_name e) p x))\<rparr>)"
  by (simp add: new_Challenge_def set_challenge_id_def split: sum.splits)

lemma new_Challenge_ok:
  assumes "parse_env e = Inr n"
  shows "new_Challenge L e p x =
     Inr \<lparr>Challenge.env = n, prompt = p, Challenge.extra = x,
          challenge_id = Some (sha256_hexdigest L (canonical L n p x))\<rparr>"
  using assms parse_env_name[OF assms] by (simp add: new_Challenge_eq)

lemma canonical_text:
  "canonical L e p x =
     ''{'' @ json_str L ''env'' @ '':'' @ json_str L e
       @ '','' @ json_str L ''extra'' @ '':'' @ dumps L (JDict x)
       @ '','' @ json_str L ''prompt'' @ '':'' @ json_str L p @ ''}''"
  by (simp add: canonical_def)

lemma canonical_prompt_inj:
  assumes "inj (json_str L)" "p1 \<noteq> p2"
  shows "canonical L e p1 x \<noteq> canonical L e p2 x"
proof -
  have "json_str L p1 \<noteq> json_str L p2" using assms by (simp add: inj_eq)
  then show ?thesis by (simp add: canonical_text)
qed

lemma Challenge_repr_cong:
  assumes "Challenge.env c1 = Challenge.env c2" "prompt c1 \<noteq> []" "prompt c2 \<noteq> []"
      "shorten L (prompt c1) 80 = shorten L (prompt c2) 80"
  shows "Challenge_repr L c1 = Challenge_repr L c2"
  using assms by (simp add: Challenge_repr_def truncate_str_def)

lemma verify_transfer:
  assumes "Keypair B (ss58_address B w) = Inr kp"
      "Keypair_verify B kp (Challenge_repr L c1) (hotkey_sign B w (Challenge_repr L c1)) = Inr True"
      "Challenge_repr L c1 = Challenge_repr L c2"
  shows "verify L B ((sign L B w (r\<lparr>challenge := c1\<rparr>))\<lparr>challenge := c2\<rparr>) = Inr True"
  using assms by (simp add: verify_def sign_def fromhex_hex)

lemma finite_short_strings: "finite {s :: string. length s \<le> n}"
  using finite_lists_length_le[of "UNIV :: char set" n] by simp

lemma shorten_collision:
  assumes "\<forall>t. length (shorten L t 80) \<le> 80"
  shows "\<exists>p1 p2. p1 \<noteq> p2 \<and> p1 \<noteq> [] \<and> p2 \<noteq> [] \<and> shorten L p1 80 = shorten L p2 80"
proof -
  let ?A = "{p :: string. p \<noteq> []}"
  let ?f = "\<lambda>p. shorten L p 80"
  have "infinite (UNIV :: string set)" by (rule infinite_UNIV_listI)
  moreover have "(UNIV :: string set) = insert [] ?A" by auto
  ultimately have inf: "infinite ?A" by (metis finite_insert)
  have "?f ` ?A \<subseteq> {s. length s \<le> 80}" using assms by auto
  then have fin: "finite (?f ` ?A)" using finite_short_strings finite_subset by blast
  from pigeonhole_infinite[OF inf fin] obtain a where
    a: "a \<in> ?A" "infinite {b \<in> ?A. ?f b = ?f a}" by blast
  have "\<exists>b. b \<in> {b \<in> ?A. ?f b = ?f a} \<and> b \<noteq> a"
  proof (rule ccontr)
    assume "\<not> (\<exists>b. b \<in> {b \<in> ?A. ?f b = ?f a} \<and> b \<noteq> a)"
    then have "{b \<in> ?A. ?f b = ?f a} \<subseteq> {a}" by blast
    then have "finite {b \<in> ?A. ?f b = ?f a}" using finite_subset by blast
    then show False using a(2) by simp
  qed
  then obtain b where "b \<in> ?A" "?f b = ?f a" "b \<noteq> a" by blast
  then show ?thesis using a(1) by blast
qed

lemma ex_lib_bound: "\<forall>t. length (shorten ex_lib t 80) \<le> 80"
  by (simp add: ex_lib_def)

text \<open>
  Two prompts with the same shortened text give Challenges of an environment with the same
  string form, and the signature of a Result holding the one verifies with the other.
\<close>

lemma same_payload_transfer:
  assumes ok: "\<forall>w d. \<exists>kp. Keypair B (ss58_address B w) = Inr kp
              \<and> Keypair_verify B kp d (hotkey_sign B w d) = Inr True"
      and p: "p1 \<noteq> []" "p2 \<noteq> []" "shorten L p1 80 = shorten L p2 80"
  shows "Challenge_repr L \<lparr>Challenge.env = n, prompt = p1, Challenge.extra = x, challenge_id = i1\<rparr>
         = Challenge_repr L \<lparr>Challenge.env = n, prompt = p2, Challenge.extra = x, challenge_id = i2\<rparr>
     \<and> (\<forall>w r. verify L B (sign L B w
                 (r\<lparr>challenge := \<lparr>Challenge.env = n, prompt = p1, Challenge.extra = x,
                                   challenge_id = i1\<rparr>\<rparr>)) = Inr True
            \<and> verify L B ((sign L B w
                 (r\<lparr>challenge := \<lparr>Challenge.env = n, prompt = p1, Challenge.extra = x,
                                   challenge_id = i1\<rparr>\<rparr>))
                 \<lparr>challenge := \<lparr>Challenge.env = n, prompt = p2, Challenge.extra = x,
                                 challenge_id = i2\<rparr>\<rparr>) = Inr True)"
proof -
  let ?c1 = "\<lparr>Challenge.env = n, prompt = p1, Challenge.extra = x, challenge_id = i1\<rparr>"
  let ?c2 = "\<lparr>Challenge.env = n, prompt = p2, Challenge.extra = x, challenge_id = i2\<rparr>"
  have same: "Challenge_repr L ?c1 = Challenge_repr L ?c2"
    by (rule Challenge_repr_cong) (use p in simp_all)
  have tr: "verify L B (sign L B w (r\<lparr>challenge := ?c1\<rparr>)) = Inr True
      \<and> verify L B ((sign L B w (r\<lparr>challenge := ?c1\<rparr>))\<lparr>challenge := ?c2\<rparr>) = Inr True" for w r
  proof -
    from ok obtain kp where kp: "Keypair B (ss58_address B w) = Inr kp"
      "Keypair_verify B kp (Challenge_repr L ?c1) (hotkey_sign B w (Challenge_repr L ?c1)) = Inr True"
      by blast
    have "verify L B (sign L B w (r\<lparr>challenge := ?c1\<rparr>)) = Inr True"
      by (rule verify_signed[OF kp(1)]) (use kp(2) in simp)
    then show ?thesis using verify_transfer[OF kp same] by simp
  qed
  show ?thesis using same tr by blast
qed

text \<open>
  Claim C10. \<open>textwrap.shorten\<close> returns at most \<open>width\<close> characters, the key pairs
  accept their own signatures, and \<open>e\<close> is an environment (an object, or a name of the
  table). Then, for every extra map, there are two Challenges of that environment with
  different prompts and the same string form: the payload that \<open>sign\<close> signs is the same,
  so the signature made for a Result holding the first Challenge makes \<open>verify\<close> return
  true after the Challenge is replaced by the second. Their ids are the SHA-256 digests of
  the canonical texts of the one and of the other prompt, which are different texts as the
  JSON string literal determines the string. SHA-256 is a library function: that the two
  digests differ is a fact about it, and whenever two prompts with the same shortened text
  have different digests, the two Challenges have different ids and the signature still
  transfers.
\<close>

theorem truncated_prompt_signature_transfer:
  assumes "\<forall>t. length (shorten L t 80) \<le> 80"
      and "\<forall>w d. \<exists>kp. Keypair B (ss58_address B w) = Inr kp
              \<and> Keypair_verify B kp d (hotkey_sign B w d) = Inr True"
      and "parse_env e = Inr n"
  shows "(\<exists>p1 p2 c1 c2. p1 \<noteq> p2
       \<and> new_Challenge L e p1 x = Inr c1 \<and> new_Challenge L e p2 x = Inr c2
       \<and> Challenge.env c1 = Challenge.env c2 \<and> prompt c1 = p1 \<and> prompt c2 = p2
       \<and> challenge_id c1 = Some (sha256_hexdigest L (canonical L n p1 x))
       \<and> challenge_id c2 = Some (sha256_hexdigest L (canonical L n p2 x))
       \<and> (inj (json_str L) \<longrightarrow> canonical L n p1 x \<noteq> canonical L n p2 x)
       \<and> Challenge_repr L c1 = Challenge_repr L c2
       \<and> (\<forall>w r. verify L B (sign L B w (r\<lparr>challenge := c1\<rparr>)) = Inr True
              \<and> verify L B ((sign L B w (r\<lparr>challenge := c1\<rparr>))\<lparr>challenge := c2\<rparr>) = Inr True))
    \<and> (\<forall>p1 p2. p1 \<noteq> [] \<and> p2 \<noteq> [] \<and> shorten L p1 80 = shorten L p2 80
           \<and> sha256_hexdigest L (canonical L n p1 x) \<noteq> sha256_hexdigest L (canonical L n p2 x)
         \<longrightarrow> (\<exists>c1 c2. new_Challenge L e p1 x = Inr c1 \<and> new_Challenge L e p2 x = Inr c2
              \<and> Challenge.env c1 = Challenge.env c2 \<and> prompt c1 \<noteq> prompt c2
              \<and> challenge_id c1 \<noteq> challenge_id c2
              \<and> Challenge_repr L c1 = Challenge_repr L c2
              \<and> (\<forall>w r. verify L B (sign L B w (r\<lparr>challenge := c1\<rparr>)) = Inr True
                     \<and> verify L B ((sign L B w (r\<lparr>challenge := c1\<rparr>))\<lparr>challenge := c2\<rparr>)
                         = Inr True)))"
proof -
  have A: "\<exists>p1 p2 c1 c2. p1 \<noteq> p2
       \<and> new_Challenge L e p1 x = Inr c1 \<and> new_Challenge L e p2 x = Inr c2
       \<and> Challenge.env c1 = Challenge.env c2 \<and> prompt c1 = p1 \<and> prompt c2 = p2
       \<and> challenge_id c1 = Some (sha256_hexdigest L (canonical L n p1 x))
       \<and> challenge_id c2 = Some (sha256_hexdigest L (canonical L n p2 x))
       \<and> (inj (json_str L) \<longrightarrow> canonical L n p1 x \<noteq> canonical L n p2 x)
       \<and> Challenge_repr L c1 = Challenge_repr L c2
       \<and> (\<forall>w r. verify L B (sign L B w (r\<lparr>challenge := c1\<rparr>)) = Inr True
              \<and> verify L B ((sign L B w (r\<lparr>challenge := c1\<rparr>))\<lparr>challenge := c2\<rparr>) = Inr True)"
  proof -
    from shorten_collision[OF assms(1)] obtain p1 p2 where
      p: "p1 \<noteq> p2" "p1 \<noteq> []" "p2 \<noteq> []" "shorten L p1 80 = shorten L p2 80" by blast
    let ?c1 = "\<lparr>Challenge.env = n, prompt = p1, Challenge.extra = x,
            challenge_id = Some (sha256_hexdigest L (canonical L n p1 x))\<rparr>"
    let ?c2 = "\<lparr>Challenge.env = n, prompt = p2, Challenge.extra = x,
            challenge_id = Some (sha256_hexdigest L (canonical L n p2 x))\<rparr>"
    note S = same_payload_transfer[OF assms(2) p(2,3,4), of n x
        "Some (sha256_hexdigest L (canonical L n p1 x))"
        "Some (sha256_hexdigest L (canonical L n p2 x))"]
    have i: "inj (json_str L) \<longrightarrow> canonical L n p1 x \<noteq> canonical L n p2 x"
      using canonical_prompt_inj[OF _ p(1)] by blast
    show ?thesis
      apply (rule exI[of _ p1], rule exI[of _ p2], rule exI[of _ ?c1], rule exI[of _ ?c2])
      apply (intro conjI)
               apply (rule p(1))
              apply (rule new_Challenge_ok[OF assms(3)])
             apply (rule new_Challenge_ok[OF assms(3)])
            apply simp
           apply simp
          apply simp
         apply simp
        apply simp
       apply (rule i)
      apply (rule S[THEN conjunct1])
      apply (rule S[THEN conjunct2])
      done
  qed
  have B: "\<exists>c1 c2. new_Challenge L e p1 x = Inr c1 \<and> new_Challenge L e p2 x = Inr c2
              \<and> Challenge.env c1 = Challenge.env c2 \<and> prompt c1 \<noteq> prompt c2
              \<and> challenge_id c1 \<noteq> challenge_id c2
              \<and> Challenge_repr L c1 = Challenge_repr L c2
              \<and> (\<forall>w r. verify L B (sign L B w (r\<lparr>challenge := c1\<rparr>)) = Inr True
                     \<and> verify L B ((sign L B w (r\<lparr>challenge := c1\<rparr>))\<lparr>challenge := c2\<rparr>)
                         = Inr True)"
    if h: "p1 \<noteq> [] \<and> p2 \<noteq> [] \<and> shorten L p1 80 = shorten L p2 80
           \<and> sha256_hexdigest L (canonical L n p1 x) \<noteq> sha256_hexdigest L (canonical L n p2 x)"
    for p1 p2
  proof -
    let ?c1 = "\<lparr>Challenge.env = n, prompt = p1, Challenge.extra = x,
            challenge_id = Some (sha256_hexdigest L (canonical L n p1 x))\<rparr>"
    let ?c2 = "\<lparr>Challenge.env = n, prompt = p2, Challenge.extra = x,
            challenge_id = Some (sha256_hexdigest L (canonical L n p2 x))\<rparr>"
    have p: "p1 \<noteq> []" "p2 \<noteq> []" "shorten L p1 80 = shorten L p2 80" using h by simp_all
    note S = same_payload_transfer[OF assms(2) p, of n x
        "Some (sha256_hexdigest L (canonical L n p1 x))"
        "Some (sha256_hexdigest L (canonical L n p2 x))"]
    have ne: "p1 \<noteq> p2" using h by auto
    show ?thesis
      apply (rule exI[of _ ?c1], rule exI[of _ ?c2])
      apply (intro conjI)
            apply (rule new_Challenge_ok[OF assms(3)])
           apply (rule new_Challenge_ok[OF assms(3)])
          apply simp
         apply (simp add: ne)
        apply (simp add: h)
       apply (rule S[THEN conjunct1])
      apply (rule S[THEN conjunct2])
      done
  qed
  show ?thesis using A B by blast
qed

lemma parse_env_SAT: "parse_env (EnvName ''SAT'') = Inr ''SAT''"
  by (simp add: parse_env_def)

theorem truncated_prompt_signature_transfer_witness:
  "\<exists>c1 c2. new_Challenge ex_lib (EnvName ''SAT'') (replicate 80 CHR ''a'' @ ''x'') [] = Inr c1
     \<and> new_Challenge ex_lib (EnvName ''SAT'') (replicate 80 CHR ''a'' @ ''y'') [] = Inr c2
     \<and> Challenge.env c1 = Challenge.env c2 \<and> prompt c1 \<noteq> prompt c2
     \<and> challenge_id c1 \<noteq> challenge_id c2
     \<and> Challenge_repr ex_lib c1 = Challenge_repr ex_lib c2
     \<and> (\<forall>w r. verify ex_lib ex_bt (sign ex_lib ex_bt w (r\<lparr>challenge := c1\<rparr>)) = Inr True
            \<and> verify ex_lib ex_bt ((sign ex_lib ex_bt w (r\<lparr>challenge := c1\<rparr>))\<lparr>challenge := c2\<rparr>)
                = Inr True)"
proof -
  let ?p1 = "replicate 80 CHR ''a'' @ ''x''"
  let ?p2 = "replicate 80 CHR ''a'' @ ''y''"
  have h: "?p1 \<noteq> [] \<and> ?p2 \<noteq> [] \<and> shorten ex_lib ?p1 80 = shorten ex_lib ?p2 80
      \<and> sha256_hexdigest ex_lib (canonical ex_lib ''SAT'' ?p1 [])
          \<noteq> sha256_hexdigest ex_lib (canonical ex_lib ''SAT'' ?p2 [])"
    by (simp add: ex_lib_def canonical_text)
  from truncated_prompt_signature_transfer[OF ex_lib_bound ex_bt_accepts parse_env_SAT,
      THEN conjunct2, rule_format, OF h]
  show ?thesis .
qed

section \<open>Properties of the dataset streamer\<close>

text \<open>
  The \<open>try\<close>/\<open>except\<close> around one line turns every exception of the decoder and of
  \<open>verify\<close> into "nothing yielded": a line yields its Result exactly when it decodes and
  \<open>verify\<close> returns true.
\<close>

lemma line_eq:
  "line L B decode raw =
     (case decode raw of
        Inl e \<Rightarrow> []
      | Inr r \<Rightarrow> if verify L B r = Inr True then [r] else [])"
  by (auto simp: line_def line_body_def split: sum.splits)

lemma dataset_append:
  "dataset L B decode (map Inr shards @ rest) =
     (concat (map (line L B decode) (concat shards)) @ fst (dataset L B decode rest),
      snd (dataset L B decode rest))"
  by (induction shards) (auto split: prod.splits)

text \<open>
  Claim C7. For one line: nothing is yielded, and nothing is raised, when the line does not
  decode or when \<open>verify\<close> of the decoded Result returns false or raises; the Result is
  yielded when \<open>verify\<close> returns true. For the stream over shards that were all fetched:
  it ends without an error and yields, in shard and line order, exactly the Results of the
  lines that decode and verify. When the transfer of a shard fails (which is not a matter of
  its lines), the stream ends there with that error, after the Results of the earlier shards.
\<close>

theorem dataset_skips_bad_lines:
  "line L B decode raw =
     (case decode raw of
        Inl e \<Rightarrow> []
      | Inr r \<Rightarrow> if verify L B r = Inr True then [r] else [])
   \<and> dataset L B decode (map Inr shards) =
       (concat (map (\<lambda>raw. case decode raw of
                             Inl e \<Rightarrow> []
                           | Inr r \<Rightarrow> if verify L B r = Inr True then [r] else [])
                    (concat shards)), None)
   \<and> dataset L B decode (map Inr shards @ Inl err # rest) =
       (concat (map (\<lambda>raw. case decode raw of
                             Inl e \<Rightarrow> []
                           | Inr r \<Rightarrow> if verify L B r = Inr True then [r] else [])
                    (concat shards)), Some err)"
proof -
  have l: "line L B decode = (\<lambda>raw. case decode raw of
                             Inl e \<Rightarrow> []
                           | Inr r \<Rightarrow> if verify L B r = Inr True then [r] else [])"
    by (rule ext) (rule line_eq)
  have a: "dataset L B decode (map Inr shards) =
       (concat (map (line L B decode) (concat shards)), None)"
    using dataset_append[of L B decode shards "[]"] by simp
  have b: "dataset L B decode (map Inr shards @ Inl err # rest) =
       (concat (map (line L B decode) (concat shards)), Some err)"
    using dataset_append[of L B decode shards "Inl err # rest"] by simp
  show ?thesis using line_eq[of L B decode raw] a b unfolding l by simp
qed

lemma ex_signed_ok: "verify ex_lib ex_bt ex_signed = Inr True"
  unfolding ex_signed_def
  by (rule verify_signed[where kp = "''5w''"]) (simp_all add: ex_bt_def)

lemma ex_signed_nonempty: "signature ex_signed \<noteq> []"
  by (simp add: ex_signed_def sign_def hex_def ex_bt_def)

lemma ex_bad_hex: "verify ex_lib ex_bt (ex_signed\<lparr>signature := ''zz''\<rparr>) = Inl ValueError"
  by (simp add: verify_def ex_signed_def sign_def ex_bt_def is_space_def hexval_def)

lemma ex_odd_hex: "verify ex_lib ex_bt (ex_signed\<lparr>signature := ''0''\<rparr>) = Inl ValueError"
  by (simp add: verify_def ex_signed_def sign_def ex_bt_def is_space_def hexval_def)

lemma ex_wrong_sig: "verify ex_lib ex_bt (ex_signed\<lparr>signature := ''00''\<rparr>) = Inr False"
  by (simp add: verify_def ex_signed_def sign_def ex_bt_def is_space_def hexval_def)

theorem dataset_skips_bad_lines_witness:
  "dataset ex_lib ex_bt ex_decode [Inr [''zz'', [], ''00'', signature ex_signed], Inr [''0'']]
     = ([ex_signed], None)"
proof -
  have s: "ex_signed\<lparr>signature := signature ex_signed\<rparr> = ex_signed" by simp
  from dataset_skips_bad_lines[of ex_lib ex_bt ex_decode "[]"
      "[[''zz'', [], ''00'', signature ex_signed], [''0'']]"]
  show ?thesis
    by (simp add: line_eq ex_decode_def ex_signed_nonempty ex_bad_hex ex_odd_hex ex_wrong_sig
        ex_signed_ok s)
qed

section \<open>Properties of the query dispatcher\<close>

lemma query_loop_terminal:
  assumes "outcome N k = Reply status txt body" "status \<in> TERMINAL"
  shows "query_loop N m retries backoff (Suc n) k sleeps
           = (Some (R_local N m None k (Some (nat_repr status @ '':'' @ txt)) False), sleeps)"
  using assms by simp

text \<open>
  An attempt is retried when it raises, or answers with a status outside \<open>TERMINAL\<close>
  that \<open>raise_for_status\<close> rejects or with a body without the content, and the retry
  budget is not used up.
\<close>

lemma query_loop_retried:
  assumes "case outcome N a of Raised e \<Rightarrow> True
           | Reply st t b \<Rightarrow> st \<notin> TERMINAL \<and> (400 \<le> st \<or> isl b)"
      and "int a \<le> retries"
  shows "query_loop N m retries backoff (Suc n) a sleeps
           = query_loop N m retries backoff n (Suc a)
               (sleeps @ [backoff * 2 ^ (a - 1) * (1 + jitter N a)])"
  using assms by (auto split: attempt.splits sum.splits)

lemma query_loop_first_terminal:
  assumes "outcome N k = Reply status txt body" "status \<in> TERMINAL"
      and "\<forall>j. a \<le> j \<and> j < k \<longrightarrow>
             (case outcome N j of Raised e \<Rightarrow> True
              | Reply st t b \<Rightarrow> st \<notin> TERMINAL \<and> (400 \<le> st \<or> isl b))"
      and "a \<le> k" "int a + int n = retries + 2" "int k \<le> retries + 1"
  shows "query_loop N m retries backoff n a sleeps
           = (Some (R_local N m None k (Some (nat_repr status @ '':'' @ txt)) False),
              sleeps @ map (\<lambda>j. backoff * 2 ^ (j - 1) * (1 + jitter N j)) [a..<k])"
  using assms(3-)
proof (induction "k - a" arbitrary: a n sleeps)
  case 0
  then have ak: "a = k" by simp
  from 0 obtain n' where n: "n = Suc n'" by (cases n) auto
  show ?case unfolding n ak using query_loop_terminal[OF assms(1,2)] by simp
next
  case (Suc d)
  then have lt: "a < k" by simp
  from Suc obtain n' where n: "n = Suc n'" by (cases n) auto
  have r: "case outcome N a of Raised e \<Rightarrow> True
           | Reply st t b \<Rightarrow> st \<notin> TERMINAL \<and> (400 \<le> st \<or> isl b)"
    using Suc.prems(1) lt by simp
  have le: "int a \<le> retries" using lt Suc.prems(4) by simp
  have IH: "query_loop N m retries backoff n' (Suc a) (sleeps @ [backoff * 2 ^ (a - 1) * (1 + jitter N a)])
      = (Some (R_local N m None k (Some (nat_repr status @ '':'' @ txt)) False),
         (sleeps @ [backoff * 2 ^ (a - 1) * (1 + jitter N a)])
           @ map (\<lambda>j. backoff * 2 ^ (j - 1) * (1 + jitter N j)) [Suc a..<k])"
  proof (rule Suc.hyps(1))
    show "d = k - Suc a" using Suc.hyps(2) by simp
    show "\<forall>j. Suc a \<le> j \<and> j < k \<longrightarrow>
             (case outcome N j of Raised e \<Rightarrow> True
              | Reply st t b \<Rightarrow> st \<notin> TERMINAL \<and> (400 \<le> st \<or> isl b))"
      using Suc.prems(1) by simp
    show "Suc a \<le> k" using lt by simp
    show "int (Suc a) + int n' = retries + 2" using Suc.prems(3) n by simp
    show "int k \<le> retries + 1" using Suc.prems(4) .
  qed
  show ?case
    unfolding n query_loop_retried[OF r le] IH using lt by (simp add: upt_conv_Cons)
qed

text \<open>
  Claim C8. Let attempt number \<open>k\<close> receive a response whose status is in
  \<open>TERMINAL = {400, 404, 410}\<close>. Then the loop, whatever the retry budget, the number of
  iterations left and the sleeps made so far, returns at once the Response with
  \<open>success = False\<close>, \<open>attempts = k\<close> and the error \<open>"status:text"\<close>, and adds no backoff
  sleep. Hence \<open>query\<close>, when the attempts before \<open>k\<close> were all retried and \<open>k\<close> is within
  the budget, returns that Response after exactly the \<open>k - 1\<close> earlier sleeps; and when the
  terminal status arrives on the first attempt, the Response has \<open>attempts = 1\<close> and no sleep
  was made.
\<close>

theorem terminal_status_short_circuits:
  assumes "outcome N k = Reply status txt body" "status \<in> TERMINAL"
  shows "query_loop N m retries backoff (Suc n) k sleeps
           = (Some (R_local N m None k (Some (nat_repr status @ '':'' @ txt)) False), sleeps)
    \<and> success (R_local N m None k (Some (nat_repr status @ '':'' @ txt)) False) = False
    \<and> attempts (R_local N m None k (Some (nat_repr status @ '':'' @ txt)) False) = int k
    \<and> (1 \<le> k \<and> int k \<le> retries + 1
        \<and> (\<forall>j. 1 \<le> j \<and> j < k \<longrightarrow>
             (case outcome N j of Raised e \<Rightarrow> True
              | Reply st t b \<Rightarrow> st \<notin> TERMINAL \<and> (400 \<le> st \<or> isl b)))
       \<longrightarrow> query N m retries backoff
           = (Some (R_local N m None k (Some (nat_repr status @ '':'' @ txt)) False),
              map (\<lambda>j. backoff * 2 ^ (j - 1) * (1 + jitter N j)) [1..<k]))
    \<and> (k = 1 \<and> 0 \<le> retries
       \<longrightarrow> query N m retries backoff
           = (Some \<lparr>Response.response = None, latency_seconds = elapsed N 1, attempts = 1,
                    Response.model = m, error = Some (nat_repr status @ '':'' @ txt),
                    success = False\<rparr>, []))"
proof -
  have 1: "query_loop N m retries backoff (Suc n) k sleeps
           = (Some (R_local N m None k (Some (nat_repr status @ '':'' @ txt)) False), sleeps)"
    by (rule query_loop_terminal[OF assms])
  have 2: "query N m retries backoff
           = (Some (R_local N m None k (Some (nat_repr status @ '':'' @ txt)) False),
              map (\<lambda>j. backoff * 2 ^ (j - 1) * (1 + jitter N j)) [1..<k])"
    if h: "1 \<le> k \<and> int k \<le> retries + 1
        \<and> (\<forall>j. 1 \<le> j \<and> j < k \<longrightarrow>
             (case outcome N j of Raised e \<Rightarrow> True
              | Reply st t b \<Rightarrow> st \<notin> TERMINAL \<and> (400 \<le> st \<or> isl b)))"
  proof -
    have "query_loop N m retries backoff (nat (retries + 1)) 1 []
           = (Some (R_local N m None k (Some (nat_repr status @ '':'' @ txt)) False),
              [] @ map (\<lambda>j. backoff * 2 ^ (j - 1) * (1 + jitter N j)) [1..<k])"
    proof (rule query_loop_first_terminal[OF assms])
      show "\<forall>j. 1 \<le> j \<and> j < k \<longrightarrow>
             (case outcome N j of Raised e \<Rightarrow> True
              | Reply st t b \<Rightarrow> st \<notin> TERMINAL \<and> (400 \<le> st \<or> isl b))" using h by blast
      show "1 \<le> k" using h by blast
      show "int k \<le> retries + 1" using h by blast
      then show "int 1 + int (nat (retries + 1)) = retries + 2" using h by simp
    qed
    then show ?thesis by (simp add: query_def)
  qed
  have 3: "query N m retries backoff
           = (Some \<lparr>Response.response = None, latency_seconds = elapsed N 1, attempts = 1,
                    Response.model = m, error = Some (nat_repr status @ '':'' @ txt),
                    success = False\<rparr>, [])"
    if h: "k = 1 \<and> 0 \<le> retries"
  proof -
    have "1 \<le> k \<and> int k \<le> retries + 1
        \<and> (\<forall>j. 1 \<le> j \<and> j < k \<longrightarrow>
             (case outcome N j of Raised e \<Rightarrow> True
              | Reply st t b \<Rightarrow> st \<notin> TERMINAL \<and> (400 \<le> st \<or> isl b)))"
      using h by simp
    from 2[OF this] show ?thesis using h by (simp add: R_local_def)
  qed
  show ?thesis
    using 1 2 3 by (simp add: R_local_def)
qed

lemma nat_repr_404: "nat_repr 404 = ''404''"
  by simp

lemma terminal_404: "404 \<in> TERMINAL"
  by (simp add: TERMINAL_def)

theorem terminal_status_short_circuits_witness:
  "query ex_net ''m'' 3 1
     = (Some \<lparr>Response.response = None, latency_seconds = 0, attempts = 1,
              Response.model = ''m'', error = Some ''404:gone'', success = False\<rparr>, [])
   \<and> query ex_flaky ''m'' 3 1
     = (Some \<lparr>Response.response = None, latency_seconds = 2, attempts = 2,
              Response.model = ''m'', error = Some ''404:gone'', success = False\<rparr>, [1])"
proof -
  have a: "outcome ex_net 1 = Reply 404 ''gone'' (Inl ''no json'')"
    by (simp add: ex_net_def)
  have b: "outcome ex_flaky 2 = Reply 404 ''gone'' (Inl ''no json'')"
    by (simp add: ex_flaky_def)
  have c: "\<forall>j. 1 \<le> j \<and> j < 2 \<longrightarrow>
             (case outcome ex_flaky j of Raised e \<Rightarrow> True
              | Reply st t b \<Rightarrow> st \<notin> TERMINAL \<and> (400 \<le> st \<or> isl b))"
  proof (intro allI impI)
    fix j :: nat assume "1 \<le> j \<and> j < 2"
    then have "j = 1" by simp
    then show "case outcome ex_flaky j of Raised e \<Rightarrow> True
              | Reply st t b \<Rightarrow> st \<notin> TERMINAL \<and> (400 \<le> st \<or> isl b)"
      by (simp add: ex_flaky_def)
  qed
  note A = terminal_status_short_circuits[OF a terminal_404, of "''m''" 3 1 0 "[]"]
  have 1: "query ex_net ''m'' 3 1
     = (Some \<lparr>Response.response = None, latency_seconds = elapsed ex_net 1, attempts = 1,
              Response.model = ''m'', error = Some (nat_repr 404 @ '':'' @ ''gone''),
              success = False\<rparr>, [])"
    by (rule A[THEN conjunct2, THEN conjunct2, THEN conjunct2, THEN conjunct2, THEN mp]) simp
  note B = terminal_status_short_circuits[OF b terminal_404, of "''m''" 3 1 0 "[]"]
  have 2: "query ex_flaky ''m'' 3 1
     = (Some (R_local ex_flaky ''m'' None 2 (Some (nat_repr 404 @ '':'' @ ''gone'')) False),
        map (\<lambda>j. 1 * 2 ^ (j - 1) * (1 + jitter ex_flaky j)) [1..<2])"
    by (rule B[THEN conjunct2, THEN conjunct2, THEN conjunct2, THEN conjunct1, THEN mp])
       (intro conjI c; simp)
  show ?thesis
    unfolding 1 2 by (simp add: R_local_def nat_repr_404 ex_net_def ex_flaky_def upt_conv_Cons)
qed

section \<open>Properties of the challenge ids\<close>

text \<open>
  Two association lists with pairwise different keys and the same key set are sorted into
  lists with the same keys at the same places.
\<close>

lemma sorted_keys_unique:
  assumes "distinct (map fst x)" "distinct (map fst y)" "fst ` set x = fst ` set y"
  shows "map fst (sort_key fst x) = map fst (sort_key fst (y :: (string \<times> 'a) list))"
proof (rule sorted_distinct_set_unique)
  have ix: "inj_on fst (set x)" using assms(1) by (simp add: distinct_map)
  have iy: "inj_on fst (set y)" using assms(2) by (simp add: distinct_map)
  show "sorted (map fst (sort_key fst x))" by (rule sorted_sort_key)
  show "sorted (map fst (sort_key fst y))" by (rule sorted_sort_key)
  show "distinct (map fst (sort_key fst x))" using assms(1) ix by (simp add: distinct_map)
  show "distinct (map fst (sort_key fst y))" using assms(2) iy by (simp add: distinct_map)
  show "set (map fst (sort_key fst x)) = set (map fst (sort_key fst y))"
    using assms(3) by simp
qed

lemma same_value_dumps: "same_value a b \<Longrightarrow> dumps L a = dumps L b"
proof (induction rule: same_value.induct)
  case (same_atom j)
  show ?case by simp
next
  case (same_list xs ys)
  then have "map (dumps L) xs = map (dumps L) ys"
    by (induction xs ys rule: list_all2_induct) simp_all
  then show ?case by simp
next
  case (same_dict xs ys)
  let ?xs = "sort_key fst xs" and ?ys = "sort_key fst ys"
  let ?item = "\<lambda>kv. json_str L (fst kv) @ '':'' @ dumps L (snd kv)"
  have keys: "map fst ?xs = map fst ?ys"
    by (rule sorted_keys_unique[OF same_dict(1,2,3)])
  then have len: "length ?xs = length ?ys" by (rule map_eq_imp_length_eq)
  have "map ?item ?xs = map ?item ?ys"
  proof (rule nth_equalityI)
    show "length (map ?item ?xs) = length (map ?item ?ys)" using len by simp
  next
    fix i assume "i < length (map ?item ?xs)"
    then have i: "i < length ?xs" "i < length ?ys" using len by simp_all
    have k: "fst (?xs ! i) = fst (?ys ! i)"
      using arg_cong[OF keys, of "\<lambda>l. l ! i"] i by simp
    have "?xs ! i \<in> set xs" using i(1) nth_mem[of i ?xs] by simp
    then have mx: "(fst (?xs ! i), snd (?xs ! i)) \<in> set xs" by simp
    have "?ys ! i \<in> set ys" using i(2) nth_mem[of i ?ys] by simp
    then have my: "(fst (?xs ! i), snd (?ys ! i)) \<in> set ys" using k by simp
    have "dumps L (snd (?xs ! i)) = dumps L (snd (?ys ! i))"
      using same_dict(4) mx my by blast
    then show "map ?item ?xs ! i = map ?item ?ys ! i" using i k by simp
  qed
  then show ?case by simp
qed

lemma same_value_permuted:
  assumes "distinct (map fst x)" "distinct (map fst y)" "set x = set y"
  shows "same_value (JDict x) (JDict y)"
proof (rule same_dict[OF assms(1,2)])
  show "fst ` set x = fst ` set y" using assms(3) by simp
  show "\<forall>k v v'. (k, v) \<in> set x \<longrightarrow> (k, v') \<in> set y \<longrightarrow> same_value v v'"
  proof (intro allI impI)
    fix k v v' assume "(k, v) \<in> set x" "(k, v') \<in> set y"
    then have "v = v'" using assms(1,3) by (metis eq_key_imp_eq_value)
    then show "same_value v v'" by (simp add: same_atom)
  qed
qed

lemma canonical_same_value:
  "same_value (JDict x) (JDict y) \<Longrightarrow> canonical L e p x = canonical L e p y"
  using same_value_dumps[of "JDict x" "JDict y" L] by (simp add: canonical_text)

lemma set_challenge_id_fresh:
  assumes "v_challenge_id values = None" "v_env values = Some e" "v_prompt values = Some p"
  shows "set_challenge_id L values =
           Inr (values\<lparr>v_challenge_id := Some (sha256_hexdigest L
              (canonical L (env_name e) p (case v_extra values of None \<Rightarrow> [] | Some d \<Rightarrow> d)))\<rparr>)"
  using assms by (simp add: set_challenge_id_def)

lemma set_challenge_id_kept:
  "v_challenge_id values = Some cid \<Longrightarrow> set_challenge_id L values = Inr values"
  by (simp add: set_challenge_id_def)

text \<open>
  Claim C4. The validator, on values without a \<open>challenge_id\<close> (absent or \<open>None\<close>) that
  hold an environment and a prompt, sets \<open>challenge_id\<close> to the SHA-256 hex digest of the
  canonical JSON text of \<open>{env: name, prompt, extra}\<close> (\<open>extra\<close> defaults to the empty
  map), and returns values with a \<open>challenge_id\<close> as they are. A \<open>Challenge\<close> constructed
  from an environment (an object, or a name of the table), a prompt and an extra map
  therefore carries that digest; for a name outside the table the construction raises
  \<open>KeyError\<close> and there is no Challenge. The canonical text has no white space and lists
  the keys in sorted order: \<open>env\<close>, \<open>extra\<close>, \<open>prompt\<close>, with the items of \<open>extra\<close> sorted
  by key as well. Constructing again from the same environment, given as a name or as an
  object, the same prompt and an \<open>extra\<close> map with the same content in another insertion
  order, at the top or in a nested dictionary, yields the identical id. The values of
  \<open>extra\<close> range over JSON values with string keys, for which \<open>json.dumps\<close> does not
  raise.
\<close>

theorem challenge_id_content_addressed:
  "(v_challenge_id values = None \<and> v_env values = Some e \<and> v_prompt values = Some p \<longrightarrow>
      set_challenge_id L values =
        Inr (values\<lparr>v_challenge_id := Some (sha256_hexdigest L
           (canonical L (env_name e) p (case v_extra values of None \<Rightarrow> [] | Some d \<Rightarrow> d)))\<rparr>))
   \<and> (v_challenge_id values = Some cid \<longrightarrow> set_challenge_id L values = Inr values)
   \<and> (parse_env e = Inr n \<longrightarrow>
        n = env_name e
        \<and> new_Challenge L e p x =
            Inr \<lparr>Challenge.env = n, prompt = p, Challenge.extra = x,
                 challenge_id = Some (sha256_hexdigest L (canonical L n p x))\<rparr>)
   \<and> (parse_env e = Inl err \<longrightarrow> new_Challenge L e p x = Inl err)
   \<and> (\<forall>s. parse_env (EnvName s) = (if s \<in> {''SAT'', ''ABD'', ''DED''} then Inr s else Inl KeyError))
   \<and> canonical L n p x =
        ''{'' @ json_str L ''env'' @ '':'' @ json_str L n
          @ '','' @ json_str L ''extra'' @ '':'' @ dumps L (JDict x)
          @ '','' @ json_str L ''prompt'' @ '':'' @ json_str L p @ ''}''
   \<and> (parse_env e = Inr n \<and> parse_env e' = Inr n
        \<and> distinct (map fst x) \<and> distinct (map fst y) \<and> set x = set y \<longrightarrow>
        new_Challenge L e' p y =
          Inr \<lparr>Challenge.env = n, prompt = p, Challenge.extra = y,
               challenge_id = Some (sha256_hexdigest L (canonical L n p x))\<rparr>)
   \<and> (parse_env e = Inr n \<and> parse_env e' = Inr n \<and> same_value (JDict x) (JDict y) \<longrightarrow>
        new_Challenge L e' p y =
          Inr \<lparr>Challenge.env = n, prompt = p, Challenge.extra = y,
               challenge_id = Some (sha256_hexdigest L (canonical L n p x))\<rparr>)"
proof -
  have 3: "n = env_name e
        \<and> new_Challenge L e p x =
            Inr \<lparr>Challenge.env = n, prompt = p, Challenge.extra = x,
                 challenge_id = Some (sha256_hexdigest L (canonical L n p x))\<rparr>"
    if "parse_env e = Inr n"
    using new_Challenge_ok[OF that] parse_env_name[OF that] by simp
  have 4: "new_Challenge L e p x = Inl err" if "parse_env e = Inl err"
    using that by (simp add: new_Challenge_eq)
  have 5: "\<forall>s. parse_env (EnvName s) = (if s \<in> {''SAT'', ''ABD'', ''DED''} then Inr s else Inl KeyError)"
    by (simp add: parse_env_def)
  have 8: "new_Challenge L e' p y =
          Inr \<lparr>Challenge.env = n, prompt = p, Challenge.extra = y,
               challenge_id = Some (sha256_hexdigest L (canonical L n p x))\<rparr>"
    if h: "parse_env e = Inr n \<and> parse_env e' = Inr n \<and> same_value (JDict x) (JDict y)"
  proof -
    have "canonical L n p y = canonical L n p x"
      using canonical_same_value[of x y L n p] h by simp
    then show ?thesis using new_Challenge_ok[of e' n L p y] h by simp
  qed
  have 7: "new_Challenge L e' p y =
          Inr \<lparr>Challenge.env = n, prompt = p, Challenge.extra = y,
               challenge_id = Some (sha256_hexdigest L (canonical L n p x))\<rparr>"
    if h: "parse_env e = Inr n \<and> parse_env e' = Inr n
        \<and> distinct (map fst x) \<and> distinct (map fst y) \<and> set x = set y"
  proof (rule 8)
    have "same_value (JDict x) (JDict y)"
      by (rule same_value_permuted) (use h in simp_all)
    then show "parse_env e = Inr n \<and> parse_env e' = Inr n \<and> same_value (JDict x) (JDict y)"
      using h by simp
  qed
  show ?thesis
    using set_challenge_id_fresh[of "values" e p L] set_challenge_id_kept[of "values" cid L]
      3 4 5 canonical_text[of L n p x] 7 8
    by blast
qed

lemma ex_same_value:
  "same_value (JDict [(''b'', JDict [(''d'', JInt 2), (''c'', JInt 1)]), (''a'', JInt 1)])
              (JDict [(''a'', JInt 1), (''b'', JDict [(''c'', JInt 1), (''d'', JInt 2)])])"
proof (rule same_dict)
  have n: "same_value (JDict [(''d'', JInt 2), (''c'', JInt 1)]) (JDict [(''c'', JInt 1), (''d'', JInt 2)])"
    by (rule same_value_permuted) auto
  show "\<forall>k v v'. (k, v) \<in> set [(''b'', JDict [(''d'', JInt 2), (''c'', JInt 1)]), (''a'', JInt 1)] \<longrightarrow>
      (k, v') \<in> set [(''a'', JInt 1), (''b'', JDict [(''c'', JInt 1), (''d'', JInt 2)])] \<longrightarrow>
      same_value v v'"
    using n by (auto intro: same_atom)
qed auto

theorem challenge_id_content_addressed_witness:
  "set_challenge_id ex_lib \<lparr>v_env = Some (EnvName ''SAT''), v_prompt = Some ''p'', v_extra = None,
                            v_challenge_id = None\<rparr>
     = Inr \<lparr>v_env = Some (EnvName ''SAT''), v_prompt = Some ''p'', v_extra = None,
            v_challenge_id = Some ''{\"env\":\"SAT\",\"extra\":{},\"prompt\":\"p\"}''\<rparr>
   \<and> set_challenge_id ex_lib \<lparr>v_env = Some (EnvName ''SAT''), v_prompt = Some ''p'', v_extra = None,
                            v_challenge_id = Some ''given''\<rparr>
     = Inr \<lparr>v_env = Some (EnvName ''SAT''), v_prompt = Some ''p'', v_extra = None,
            v_challenge_id = Some ''given''\<rparr>
   \<and> new_Challenge ex_lib (EnvName ''SAT'') ''p''
        [(''b'', JDict [(''d'', JInt 2), (''c'', JInt 1)]), (''a'', JInt 1)]
     = Inr \<lparr>Challenge.env = ''SAT'', prompt = ''p'',
            Challenge.extra = [(''b'', JDict [(''d'', JInt 2), (''c'', JInt 1)]), (''a'', JInt 1)],
            challenge_id =
              Some ''{\"env\":\"SAT\",\"extra\":{\"a\":1,\"b\":{\"c\":1,\"d\":2}},\"prompt\":\"p\"}''\<rparr>
   \<and> new_Challenge ex_lib (EnvObject ''SAT'') ''p''
        [(''a'', JInt 1), (''b'', JDict [(''c'', JInt 1), (''d'', JInt 2)])]
     = Inr \<lparr>Challenge.env = ''SAT'', prompt = ''p'',
            Challenge.extra = [(''a'', JInt 1), (''b'', JDict [(''c'', JInt 1), (''d'', JInt 2)])],
            challenge_id =
              Some ''{\"env\":\"SAT\",\"extra\":{\"a\":1,\"b\":{\"c\":1,\"d\":2}},\"prompt\":\"p\"}''\<rparr>
   \<and> new_Challenge ex_lib (EnvName ''XYZ'') ''p'' [] = Inl KeyError"
proof -
  let ?v = "\<lparr>v_env = Some (EnvName ''SAT''), v_prompt = Some ''p'', v_extra = None,
             v_challenge_id = None\<rparr>"
  let ?g = "\<lparr>v_env = Some (EnvName ''SAT''), v_prompt = Some ''p'', v_extra = None,
             v_challenge_id = Some ''given''\<rparr>"
  let ?x = "[(''b'', JDict [(''d'', JInt 2), (''c'', JInt 1)]), (''a'', JInt 1)]"
  let ?y = "[(''a'', JInt 1), (''b'', JDict [(''c'', JInt 1), (''d'', JInt 2)])]"
  note T = challenge_id_content_addressed[of ?v "EnvName ''SAT''" "''p''" ex_lib "''given''"
      "''SAT''" ?x KeyError "EnvObject ''SAT''" ?y]
  note G = challenge_id_content_addressed[of ?g "EnvName ''SAT''" "''p''" ex_lib "''given''"
      "''SAT''" ?x KeyError "EnvObject ''SAT''" ?y]
  note X = challenge_id_content_addressed[of ?v "EnvName ''XYZ''" "''p''" ex_lib "''given''"
      "''XYZ''" "[]" KeyError "EnvObject ''SAT''" "[]"]
  have c0: "canonical ex_lib ''SAT'' ''p'' [] = ''{\"env\":\"SAT\",\"extra\":{},\"prompt\":\"p\"}''"
    by (simp add: canonical_text ex_lib_def)
  have cx: "canonical ex_lib ''SAT'' ''p'' ?x
      = ''{\"env\":\"SAT\",\"extra\":{\"a\":1,\"b\":{\"c\":1,\"d\":2}},\"prompt\":\"p\"}''"
    by (simp add: canonical_text ex_lib_def int_repr_def)
  have pn: "parse_env (EnvName ''SAT'') = Inr ''SAT''" "parse_env (EnvObject ''SAT'') = Inr ''SAT''"
    "parse_env (EnvName ''XYZ'') = Inl KeyError"
    by (simp_all add: parse_env_def)
  have 1: "set_challenge_id ex_lib ?v = Inr (?v\<lparr>v_challenge_id := Some (sha256_hexdigest ex_lib
           (canonical ex_lib (env_name (EnvName ''SAT'')) ''p''
              (case v_extra ?v of None \<Rightarrow> [] | Some d \<Rightarrow> d)))\<rparr>)"
    by (rule T[THEN conjunct1, THEN mp]) simp
  have 2: "set_challenge_id ex_lib ?g = Inr ?g"
    by (rule G[THEN conjunct2, THEN conjunct1, THEN mp]) simp
  have 3: "new_Challenge ex_lib (EnvName ''SAT'') ''p'' ?x =
            Inr \<lparr>Challenge.env = ''SAT'', prompt = ''p'', Challenge.extra = ?x,
                 challenge_id = Some (sha256_hexdigest ex_lib (canonical ex_lib ''SAT'' ''p'' ?x))\<rparr>"
    using T[THEN conjunct2, THEN conjunct2, THEN conjunct1, THEN mp, OF pn(1)] by (rule conjunct2)
  have 4: "new_Challenge ex_lib (EnvObject ''SAT'') ''p'' ?y =
          Inr \<lparr>Challenge.env = ''SAT'', prompt = ''p'', Challenge.extra = ?y,
               challenge_id = Some (sha256_hexdigest ex_lib (canonical ex_lib ''SAT'' ''p'' ?x))\<rparr>"
    by (rule T[THEN conjunct2, THEN conjunct2, THEN conjunct2, THEN conjunct2, THEN conjunct2,
          THEN conjunct2, THEN conjunct2, THEN mp])
       (intro conjI pn ex_same_value)
  have 5: "new_Challenge ex_lib (EnvName ''XYZ'') ''p'' [] = Inl KeyError"
    by (rule X[THEN conjunct2, THEN conjunct2, THEN conjunct2, THEN conjunct1, THEN mp]) (rule pn(3))
  have h: "sha256_hexdigest ex_lib = (\<lambda>s. s)" by (simp add: ex_lib_def)
  have n: "env_name (EnvName ''SAT'') = ''SAT''" by (simp add: env_name_def)
  show ?thesis
    unfolding 1 2 3 4 5 by (simp add: h n c0 cx)
qed

end
